theory Spec2Isabelle
  imports Complex_Main
begin

section \<open>The teleoperation session of \<^verbatim>\<open>teleop_nonhaptic_filtered.py\<close>\<close>

text \<open>
  The theory embeds the class \<^verbatim>\<open>MotorControlApp\<close>: its fields as a record, its
  methods as functions from the record to the updated record, and its coroutines as
  functions that also take the outcome of every \<^verbatim>\<open>await\<close> they reach and return
  how the coroutine ended, the record it left and the commands it sent, in order.

  Python floats are read as real numbers (no rounding), with the special values the
  program can meet kept apart in \<open>pyfloat\<close>. Every concrete input used below is a
  number that binary floating point holds exactly, or a comparison that floating point
  decides the same way.
\<close>

subsection \<open>Values\<close>

datatype pyfloat = Fin real | PosInf | NegInf | NaN

text \<open>Python's \<^verbatim>\<open>a <= b\<close> on floats: false as soon as one side is not a number.\<close>

fun py_le :: "pyfloat \<Rightarrow> pyfloat \<Rightarrow> bool" where
  "py_le NaN _ = False"
| "py_le _ NaN = False"
| "py_le (Fin a) (Fin b) = (a \<le> b)"
| "py_le NegInf _ = True"
| "py_le _ PosInf = True"
| "py_le PosInf _ = False"
| "py_le _ NegInf = False"

text \<open>
  The text of the entry widget, known by what \<^verbatim>\<open>float(...)\<close> makes of it: a
  \<^verbatim>\<open>ValueError\<close> or a float. The text \<^verbatim>\<open>str(self.alpha)\<close> that the program writes
  back reads as \<^verbatim>\<open>self.alpha\<close> again.
\<close>

datatype entry_text = Unparseable | Parses pyfloat

type_synonym actuator_id = nat

text \<open>
  A \<^verbatim>\<open>moteus.Controller\<close> object: the address that tells two objects apart and the
  id of the actuator it talks to.
\<close>

record controller_obj =
  addr :: nat
  cid :: actuator_id

text \<open>The registers read from a reply: \<^verbatim>\<open>state.values[moteus.Register.X]\<close>.\<close>

record telemetry =
  position :: real
  velocity :: real
  torque :: real

datatype exn =
    TransportError | CancelledError | AttributeError | TypeError | UnboundLocalError

text \<open>\<^verbatim>\<open>except Exception\<close> catches everything but a cancellation.\<close>

definition is_Exception :: "exn \<Rightarrow> bool" where
  "is_Exception x = (x \<noteq> CancelledError)"

text \<open>What an \<^verbatim>\<open>await\<close> gives: it raises, or it returns a value.\<close>

datatype 'a outcome = Raises exn | Returns 'a

text \<open>A query or a command with \<^verbatim>\<open>query=True\<close> returns a reply or \<^verbatim>\<open>None\<close>.\<close>

type_synonym reply = "telemetry option outcome"

text \<open>
  What the program sends out, in order. A command names the actuator id of the
  controller object it is sent through. \<open>SetPosition\<close> carries the keyword arguments
  \<^verbatim>\<open>position\<close>, \<^verbatim>\<open>velocity\<close> (\<open>None\<close> when not given) and \<^verbatim>\<open>maximum_torque\<close>.
\<close>

datatype event =
    SetStop actuator_id
  | SetPosition actuator_id "pyfloat option" "pyfloat option" real
  | Query actuator_id
  | StreamCommand actuator_id string
  | Sleep real
  | UpdatePositions real real real real
  | PrintError exn
  | ShowInfo string string
  | ShowError string exn

text \<open>
  How a coroutine stands when its schedule of outcomes is used up: still inside a loop
  (\<open>Pending\<close>), returned, or ended by an exception.
\<close>

datatype status = Pending | Returned | Raised exn

subsection \<open>The application object\<close>

record app =
  next_addr :: nat
  controller :: controller_obj
  stream :: controller_obj
  running :: bool
  monitoring :: bool
  homing_trigger :: bool
  homing_gripper :: bool
  controllers :: "actuator_id \<rightharpoonup> controller_obj"
  prevfiltpos :: "real option"
  alpha :: real
  alpha_entry :: entry_text
  go_btn :: bool
  stop_btn :: bool
  hometrig_btn :: bool
  homegrip_btn :: bool

text \<open>\<^verbatim>\<open>moteus.Controller(id=i)\<close>: a new object at a fresh address.\<close>

definition new_controller :: "actuator_id \<Rightarrow> app \<Rightarrow> controller_obj \<times> app" where
  "new_controller i s =
     (\<lparr>addr = next_addr s, cid = i\<rparr>, s\<lparr>next_addr := Suc (next_addr s)\<rparr>)"

text \<open>
  \<^verbatim>\<open>__init__\<close>: the stream wraps the controller object made for id 2; the buttons are
  enabled (\<open>True\<close>) or disabled as \<^verbatim>\<open>create_widgets\<close> leaves them.
\<close>

definition init :: app where
  "init =
     \<lparr>next_addr = 1,
      controller = \<lparr>addr = 0, cid = 2\<rparr>,
      stream = \<lparr>addr = 0, cid = 2\<rparr>,
      running = False,
      monitoring = True,
      homing_trigger = False,
      homing_gripper = False,
      controllers = Map.empty,
      prevfiltpos = None,
      alpha = 95 / 100,
      alpha_entry = Parses (Fin (95 / 100)),
      go_btn = True,
      stop_btn = False,
      hometrig_btn = True,
      homegrip_btn = True\<rparr>"

subsection \<open>The callbacks of the buttons\<close>

definition update_alpha :: "app \<Rightarrow> app" where
  "update_alpha s =
     (case alpha_entry s of
        Unparseable \<Rightarrow> s\<lparr>alpha_entry := Parses (Fin (alpha s))\<rparr>
      | Parses new_alpha \<Rightarrow>
          if py_le (Fin 0) new_alpha \<and> py_le new_alpha (Fin 1)
          then (case new_alpha of Fin a \<Rightarrow> s\<lparr>alpha := a\<rparr> | _ \<Rightarrow> s)
          else s\<lparr>alpha_entry := Parses (Fin (alpha s))\<rparr>)"

text \<open>
  \<^verbatim>\<open>start_control\<close>: the second component says whether \<^verbatim>\<open>motor_control\<close> was handed
  to the event loop.
\<close>

definition start_control :: "app \<Rightarrow> app \<times> bool" where
  "start_control s =
     (if \<not> running s
      then (s\<lparr>running := True, go_btn := False, stop_btn := True\<rparr>, True)
      else (s, False))"

definition stop_control :: "app \<Rightarrow> app" where
  "stop_control s = s\<lparr>running := False, go_btn := True, stop_btn := False\<rparr>"

definition quit_app :: "app \<Rightarrow> app" where
  "quit_app s = stop_control s"

text \<open>
  What the window's thread can do to the record while a coroutine is suspended: the
  operator types into the entry or presses a button that only changes fields.
\<close>

datatype ui_action = TypeAlpha entry_text | PressUpdateAlpha | PressStop | PressQuit

fun apply_ui :: "ui_action \<Rightarrow> app \<Rightarrow> app" where
  "apply_ui (TypeAlpha txt) s = s\<lparr>alpha_entry := txt\<rparr>"
| "apply_ui PressUpdateAlpha s = update_alpha s"
| "apply_ui PressStop s = stop_control s"
| "apply_ui PressQuit s = quit_app s"

definition apply_uis :: "ui_action list \<Rightarrow> app \<Rightarrow> app" where
  "apply_uis as s = fold apply_ui as s"

subsection \<open>Creating the controllers\<close>

text \<open>
  \<^verbatim>\<open>initialize_controllers\<close>, given the outcomes of the two \<^verbatim>\<open>set_stop\<close> calls it may
  make. The dictionary entry is stored before the call is awaited, so it stays when the
  call raises.
\<close>

definition initialize_controllers ::
  "app \<Rightarrow> unit outcome \<Rightarrow> unit outcome \<Rightarrow>
     (exn + controller_obj \<times> controller_obj) \<times> app \<times> event list" where
  "initialize_controllers s stop1 stop2 =
     (let (r1, s1, t1) =
            (if controllers s 1 = None
             then (let (c, s') = new_controller 1 s
                   in (stop1, s'\<lparr>controllers := (controllers s')(1 \<mapsto> c)\<rparr>, [SetStop (cid c)]))
             else (Returns (), s, []))
      in case r1 of
           Raises x \<Rightarrow> (Inl x, s1, t1)
         | Returns _ \<Rightarrow>
             (let (r2, s2, t2) =
                    (if controllers s1 2 = None
                     then (let (c, s') = new_controller 2 s1
                           in (stop2, s'\<lparr>controllers := (controllers s')(2 \<mapsto> c)\<rparr>,
                               [SetStop (cid c)]))
                     else (Returns (), s1, []))
              in case r2 of
                   Raises x \<Rightarrow> (Inl x, s2, t1 @ t2)
                 | Returns _ \<Rightarrow>
                     (Inr (the (controllers s2 1), the (controllers s2 2)), s2, t1 @ t2)))"

text \<open>The three parts of what a coroutine returns in this theory.\<close>

definition status_of :: "status \<times> app \<times> event list \<Rightarrow> status" where
  "status_of r = fst r"

definition state_of :: "'a \<times> app \<times> event list \<Rightarrow> app" where
  "state_of r = fst (snd r)"

definition sent :: "'a \<times> app \<times> event list \<Rightarrow> event list" where
  "sent r = snd (snd r)"

subsection \<open>The mirror control loop\<close>

text \<open>
  One pass of \<^verbatim>\<open>while self.running\<close> meets these: what the window's thread did since
  the flag was last read, the replies to the two commands, and the outcome of the sleep.
\<close>

record mirror_iter =
  mi_ui :: "ui_action list"
  mi_leader :: reply
  mi_follower :: reply
  mi_sleep :: "unit outcome"

text \<open>
  The body of the loop (lines 170 to 184). The first component is the exception that
  ends it, if any: a reply of \<^verbatim>\<open>None\<close> has no \<^verbatim>\<open>values\<close>, and a \<^verbatim>\<open>prevfiltpos\<close> of
  \<^verbatim>\<open>None\<close> cannot be multiplied.
\<close>

definition mirror_body ::
  "controller_obj \<Rightarrow> controller_obj \<Rightarrow> app \<Rightarrow> mirror_iter \<Rightarrow> exn option \<times> app \<times> event list" where
  "mirror_body c1 c2 s e =
     (let t1 = [SetPosition (cid c1) (Some NaN) (Some NaN) (15 / 1000)] in
      case mi_leader e of
        Raises x \<Rightarrow> (Some x, s, t1)
      | Returns None \<Rightarrow> (Some AttributeError, s, t1)
      | Returns (Some state1) \<Rightarrow>
          (let pos = position state1 in
           case prevfiltpos s of
             None \<Rightarrow> (Some TypeError, s, t1)
           | Some prev \<Rightarrow>
               (let filtered = alpha s * prev + (1 - alpha s) * pos;
                    t2 = t1 @ [SetPosition (cid c2) (Some (Fin (7 - filtered))) None (1 / 10)]
                in case mi_follower e of
                     Raises x \<Rightarrow> (Some x, s, t2)
                   | Returns _ \<Rightarrow>
                       (let s' = s\<lparr>prevfiltpos := Some pos\<rparr>;
                            t3 = t2 @ [Sleep (1 / 1000)]
                        in case mi_sleep e of
                             Raises x \<Rightarrow> (Some x, s', t3)
                           | Returns _ \<Rightarrow> (None, s', t3)))))"

text \<open>
  The loop over a schedule of passes. A schedule that ends while the flag is still set
  leaves the loop \<open>Pending\<close>.
\<close>

fun mirror_loop ::
  "controller_obj \<Rightarrow> controller_obj \<Rightarrow> app \<Rightarrow> mirror_iter list \<Rightarrow> status \<times> app \<times> event list" where
  "mirror_loop c1 c2 s [] = (Pending, s, [])"
| "mirror_loop c1 c2 s (e # es) =
     (let s0 = apply_uis (mi_ui e) s in
      if \<not> running s0 then (Returned, s0, [])
      else (case mirror_body c1 c2 s0 e of
              (Some x, s1, t) \<Rightarrow> (Raised x, s1, t)
            | (None, s1, t) \<Rightarrow>
                (case mirror_loop c1 c2 s1 es of (st, s2, t2) \<Rightarrow> (st, s2, t @ t2))))"

record mirror_env =
  me_stop1 :: "unit outcome"
  me_stop2 :: "unit outcome"
  me_seed :: reply
  me_iters :: "mirror_iter list"
  me_final1 :: "unit outcome"
  me_final2 :: "unit outcome"

text \<open>
  \<^verbatim>\<open>motor_control\<close>: the controllers, the query that seeds \<^verbatim>\<open>prevfiltpos\<close>, the loop
  inside \<^verbatim>\<open>try\<close>, and the two stops of \<^verbatim>\<open>finally\<close>, the second awaited after the
  first has returned. An exception of the loop is raised again after \<^verbatim>\<open>finally\<close>
  unless \<^verbatim>\<open>finally\<close> raises itself.
\<close>

definition motor_control :: "app \<Rightarrow> mirror_env \<Rightarrow> status \<times> app \<times> event list" where
  "motor_control s env =
     (case initialize_controllers s (me_stop1 env) (me_stop2 env) of
        (Inl x, s1, t1) \<Rightarrow> (Raised x, s1, t1)
      | (Inr (c1, c2), s1, t1) \<Rightarrow>
          (let t2 = t1 @ [Query (cid c1)] in
           case me_seed env of
             Raises x \<Rightarrow> (Raised x, s1, t2)
           | Returns None \<Rightarrow> (Raised AttributeError, s1, t2)
           | Returns (Some state1) \<Rightarrow>
               (let s2 = s1\<lparr>prevfiltpos := Some (position state1)\<rparr> in
                case mirror_loop c1 c2 s2 (me_iters env) of
                  (Pending, s3, t3) \<Rightarrow> (Pending, s3, t2 @ t3)
                | (st, s3, t3) \<Rightarrow>
                    (let t4 = t2 @ t3 @ [SetStop (cid c1)] in
                     case me_final1 env of
                       Raises y \<Rightarrow> (Raised y, s3, t4)
                     | Returns _ \<Rightarrow>
                         (let t5 = t4 @ [SetStop (cid c2)] in
                          case me_final2 env of
                            Raises y \<Rightarrow> (Raised y, s3, t5)
                          | Returns _ \<Rightarrow> (st, s3, t5))))))"

subsection \<open>The monitor loop\<close>

record monitor_iter =
  mo_stop1 :: "unit outcome"
  mo_stop2 :: "unit outcome"
  mo_query1 :: reply
  mo_query2 :: reply
  mo_sleep :: "unit outcome"
  mo_backoff :: "unit outcome"

text \<open>
  The handler of \<^verbatim>\<open>except Exception\<close> in \<^verbatim>\<open>monitor_motors\<close>: print, then sleep one
  second. A cancellation is not caught and ends the coroutine; so does one that
  arrives during the sleep of the handler.
\<close>

definition monitor_except ::
  "exn \<Rightarrow> app \<Rightarrow> event list \<Rightarrow> unit outcome \<Rightarrow> exn option \<times> app \<times> event list" where
  "monitor_except x s t backoff =
     (if is_Exception x
      then (case backoff of
              Raises y \<Rightarrow> (Some y, s, t @ [PrintError x, Sleep 1])
            | Returns _ \<Rightarrow> (None, s, t @ [PrintError x, Sleep 1]))
      else (Some x, s, t))"

text \<open>The body of \<^verbatim>\<open>while self.monitoring\<close> (lines 193 to 214).\<close>

definition monitor_body :: "app \<Rightarrow> monitor_iter \<Rightarrow> exn option \<times> app \<times> event list" where
  "monitor_body s e =
     (case initialize_controllers s (mo_stop1 e) (mo_stop2 e) of
        (Inl x, s1, t1) \<Rightarrow> monitor_except x s1 t1 (mo_backoff e)
      | (Inr (c1, c2), s1, t1) \<Rightarrow>
          (let t2 = t1 @ [Query (cid c1)] in
           case mo_query1 e of
             Raises x \<Rightarrow> monitor_except x s1 t2 (mo_backoff e)
           | Returns state1 \<Rightarrow>
               (let t3 = t2 @ [Query (cid c2)] in
                case mo_query2 e of
                  Raises x \<Rightarrow> monitor_except x s1 t3 (mo_backoff e)
                | Returns state2 \<Rightarrow>
                    (let t4 = t3 @
                           (case (state1, state2) of
                              (Some a, Some b) \<Rightarrow>
                                [UpdatePositions (position a) (position b) (torque a) (torque b)]
                            | _ \<Rightarrow> [])
                           @ [Sleep (1 / 1000)]
                     in case mo_sleep e of
                          Raises x \<Rightarrow> monitor_except x s1 t4 (mo_backoff e)
                        | Returns _ \<Rightarrow> (None, s1, t4)))))"

fun monitor_motors :: "app \<Rightarrow> monitor_iter list \<Rightarrow> status \<times> app \<times> event list" where
  "monitor_motors s [] = (Pending, s, [])"
| "monitor_motors s (e # es) =
     (if \<not> monitoring s then (Returned, s, [])
      else (case monitor_body s e of
              (Some x, s1, t) \<Rightarrow> (Raised x, s1, t)
            | (None, s1, t) \<Rightarrow>
                (case monitor_motors s1 es of (st, s2, t2) \<Rightarrow> (st, s2, t @ t2))))"

subsection \<open>Homing\<close>

text \<open>
  One pass of a homing loop meets these: whether the homing flag was cleared from
  outside since it was last read, the reply to the probe command, and the outcomes of
  the stream command, of the pause after it and of the sleep between two probes.
\<close>

record homing_iter =
  hi_cancel :: bool
  hi_probe :: reply
  hi_exact :: "unit outcome"
  hi_settle :: "unit outcome"
  hi_sleep :: "unit outcome"

record homing_env =
  he_stop1 :: "unit outcome"
  he_stop2 :: "unit outcome"
  he_first_stop :: "unit outcome"
  he_pause :: "unit outcome"
  he_iters :: "homing_iter list"
  he_final_stop :: "unit outcome"

text \<open>
  The loop of \<^verbatim>\<open>home_trigger\<close> (lines 233 to 249); the second component is the
  local variable \<^verbatim>\<open>homing__trigger_success\<close>.
\<close>

fun trigger_loop ::
  "controller_obj \<Rightarrow> app \<Rightarrow> homing_iter list \<Rightarrow> status \<times> bool \<times> app \<times> event list" where
  "trigger_loop c s [] = (Pending, False, s, [])"
| "trigger_loop c s (e # es) =
     (let s0 = (if hi_cancel e then s\<lparr>homing_trigger := False\<rparr> else s) in
      if \<not> homing_trigger s0 then (Returned, False, s0, [])
      else
        (let t1 = [SetPosition (cid c) (Some NaN) (Some (Fin (- (1 / 2)))) (3 / 100)] in
         case hi_probe e of
           Raises x \<Rightarrow> (Raised x, False, s0, t1)
         | Returns state \<Rightarrow>
             if (case state of None \<Rightarrow> False | Some st \<Rightarrow> torque st < - (2 / 100))
             then
               (let t2 = t1 @ [StreamCommand (cid (stream s0)) ''d exact 0''] in
                case hi_exact e of
                  Raises x \<Rightarrow> (Raised x, False, s0, t2)
                | Returns _ \<Rightarrow>
                    (let t3 = t2 @ [Sleep (1 / 10)] in
                     case hi_settle e of
                       Raises x \<Rightarrow> (Raised x, False, s0, t3)
                     | Returns _ \<Rightarrow> (Returned, True, s0, t3)))
             else
               (let t2 = t1 @ [Sleep (1 / 100)] in
                case hi_sleep e of
                  Raises x \<Rightarrow> (Raised x, False, s0, t2)
                | Returns _ \<Rightarrow>
                    (case trigger_loop c s0 es of
                       (st, ok, s1, t3) \<Rightarrow> (st, ok, s1, t2 @ t3)))))"

text \<open>
  The \<^verbatim>\<open>try\<close> block of \<^verbatim>\<open>home_trigger\<close>. The second component is what the local
  variable \<^verbatim>\<open>c1\<close> is bound to when the block is left: nothing before line 225
  has run, in particular on the early \<^verbatim>\<open>return\<close>.
\<close>

definition home_trigger_try ::
  "app \<Rightarrow> homing_env \<Rightarrow> status \<times> controller_obj option \<times> app \<times> event list" where
  "home_trigger_try s env =
     (if homing_trigger s then (Returned, None, s, [])
      else
        (let s1 = s\<lparr>homing_trigger := True, hometrig_btn := False\<rparr> in
         case initialize_controllers s1 (he_stop1 env) (he_stop2 env) of
           (Inl x, s2, t1) \<Rightarrow> (Raised x, None, s2, t1)
         | (Inr (c1, c2), s2, t1) \<Rightarrow>
             (let t2 = t1 @ [SetStop (cid c1)] in
              case he_first_stop env of
                Raises x \<Rightarrow> (Raised x, Some c1, s2, t2)
              | Returns _ \<Rightarrow>
                  (let t3 = t2 @ [Sleep (1 / 10)] in
                   case he_pause env of
                     Raises x \<Rightarrow> (Raised x, Some c1, s2, t3)
                   | Returns _ \<Rightarrow>
                       (case trigger_loop c1 s2 (he_iters env) of
                          (Returned, ok, s3, t4) \<Rightarrow>
                            (Returned, Some c1, s3,
                             t3 @ t4 @ (if ok then [ShowInfo ''Success'' ''Trigger homing completed''] else []))
                        | (st, ok, s3, t4) \<Rightarrow> (st, Some c1, s3, t3 @ t4))))))"

text \<open>
  \<^verbatim>\<open>home_trigger\<close>: the \<^verbatim>\<open>try\<close> block, the handler of \<^verbatim>\<open>except Exception\<close> and the
  \<^verbatim>\<open>finally\<close> block, which runs on every way out of \<^verbatim>\<open>try\<close>: it clears the flag,
  enables the button and stops \<^verbatim>\<open>c1\<close>, which raises \<^verbatim>\<open>UnboundLocalError\<close> when
  \<^verbatim>\<open>c1\<close> was never bound. The callbacks given to \<^verbatim>\<open>root.after(0, ...)\<close> are taken
  to run at once.
\<close>

definition home_trigger :: "app \<Rightarrow> homing_env \<Rightarrow> status \<times> app \<times> event list" where
  "home_trigger s env =
     (case home_trigger_try s env of
        (Pending, b, s1, t1) \<Rightarrow> (Pending, s1, t1)
      | (st, b, s1, t1) \<Rightarrow>
          (let t2 = (case st of
                       Raised x \<Rightarrow> if is_Exception x then t1 @ [ShowError ''Error'' x] else t1
                     | _ \<Rightarrow> t1);
               st2 = (case st of
                        Raised x \<Rightarrow> if is_Exception x then Returned else Raised x
                      | _ \<Rightarrow> st);
               s2 = s1\<lparr>homing_trigger := False, hometrig_btn := True\<rparr>
           in case b of
                None \<Rightarrow> (Raised UnboundLocalError, s2, t2)
              | Some c \<Rightarrow>
                  (let t3 = t2 @ [SetStop (cid c)] in
                   case he_final_stop env of
                     Raises y \<Rightarrow> (Raised y, s2, t3)
                   | Returns _ \<Rightarrow> (st2, s2, t3))))"

text \<open>
  The loop of \<^verbatim>\<open>home_gripper\<close> (lines 278 to 294); the second component is the
  local variable \<^verbatim>\<open>homing__gripper_success\<close>.
\<close>

fun gripper_loop ::
  "controller_obj \<Rightarrow> app \<Rightarrow> homing_iter list \<Rightarrow> status \<times> bool \<times> app \<times> event list" where
  "gripper_loop c s [] = (Pending, False, s, [])"
| "gripper_loop c s (e # es) =
     (let s0 = (if hi_cancel e then s\<lparr>homing_gripper := False\<rparr> else s) in
      if \<not> homing_gripper s0 then (Returned, False, s0, [])
      else
        (let t1 = [SetPosition (cid c) (Some NaN) (Some (Fin (1 / 2))) (5 / 100)] in
         case hi_probe e of
           Raises x \<Rightarrow> (Raised x, False, s0, t1)
         | Returns state \<Rightarrow>
             if (case state of None \<Rightarrow> False | Some st \<Rightarrow> torque st > 3 / 100)
             then
               (let t2 = t1 @ [StreamCommand (cid (stream s0)) ''d exact 7''] in
                case hi_exact e of
                  Raises x \<Rightarrow> (Raised x, False, s0, t2)
                | Returns _ \<Rightarrow>
                    (let t3 = t2 @ [Sleep (1 / 10)] in
                     case hi_settle e of
                       Raises x \<Rightarrow> (Raised x, False, s0, t3)
                     | Returns _ \<Rightarrow> (Returned, True, s0, t3)))
             else
               (let t2 = t1 @ [Sleep (1 / 100)] in
                case hi_sleep e of
                  Raises x \<Rightarrow> (Raised x, False, s0, t2)
                | Returns _ \<Rightarrow>
                    (case gripper_loop c s0 es of
                       (st, ok, s1, t3) \<Rightarrow> (st, ok, s1, t2 @ t3)))))"

text \<open>
  The \<^verbatim>\<open>try\<close> block of \<^verbatim>\<open>home_gripper\<close>. The second component is what the local
  variable \<^verbatim>\<open>c2\<close> is bound to when the block is left: nothing before line 270
  has run, in particular on the early \<^verbatim>\<open>return\<close>.
\<close>

definition home_gripper_try ::
  "app \<Rightarrow> homing_env \<Rightarrow> status \<times> controller_obj option \<times> app \<times> event list" where
  "home_gripper_try s env =
     (if homing_gripper s then (Returned, None, s, [])
      else
        (let s1 = s\<lparr>homing_gripper := True, homegrip_btn := False\<rparr> in
         case initialize_controllers s1 (he_stop1 env) (he_stop2 env) of
           (Inl x, s2, t1) \<Rightarrow> (Raised x, None, s2, t1)
         | (Inr (c1, c2), s2, t1) \<Rightarrow>
             (let t2 = t1 @ [SetStop (cid c2)] in
              case he_first_stop env of
                Raises x \<Rightarrow> (Raised x, Some c2, s2, t2)
              | Returns _ \<Rightarrow>
                  (let t3 = t2 @ [Sleep (1 / 10)] in
                   case he_pause env of
                     Raises x \<Rightarrow> (Raised x, Some c2, s2, t3)
                   | Returns _ \<Rightarrow>
                       (case gripper_loop c2 s2 (he_iters env) of
                          (Returned, ok, s3, t4) \<Rightarrow>
                            (Returned, Some c2, s3,
                             t3 @ t4 @ (if ok then [ShowInfo ''Success'' ''Gripper homing completed''] else []))
                        | (st, ok, s3, t4) \<Rightarrow> (st, Some c2, s3, t3 @ t4))))))"

text \<open>
  \<^verbatim>\<open>home_gripper\<close>: the \<^verbatim>\<open>try\<close> block, the handler of \<^verbatim>\<open>except Exception\<close> and the
  \<^verbatim>\<open>finally\<close> block, which runs on every way out of \<^verbatim>\<open>try\<close>: it clears the flag,
  enables the button and stops \<^verbatim>\<open>c2\<close>, which raises \<^verbatim>\<open>UnboundLocalError\<close> when
  \<^verbatim>\<open>c2\<close> was never bound. The callbacks given to \<^verbatim>\<open>root.after(0, ...)\<close> are taken
  to run at once.
\<close>

definition home_gripper :: "app \<Rightarrow> homing_env \<Rightarrow> status \<times> app \<times> event list" where
  "home_gripper s env =
     (case home_gripper_try s env of
        (Pending, b, s1, t1) \<Rightarrow> (Pending, s1, t1)
      | (st, b, s1, t1) \<Rightarrow>
          (let t2 = (case st of
                       Raised x \<Rightarrow> if is_Exception x then t1 @ [ShowError ''Error'' x] else t1
                     | _ \<Rightarrow> t1);
               st2 = (case st of
                        Raised x \<Rightarrow> if is_Exception x then Returned else Raised x
                      | _ \<Rightarrow> st);
               s2 = s1\<lparr>homing_gripper := False, homegrip_btn := True\<rparr>
           in case b of
                None \<Rightarrow> (Raised UnboundLocalError, s2, t2)
              | Some c \<Rightarrow>
                  (let t3 = t2 @ [SetStop (cid c)] in
                   case he_final_stop env of
                     Raises y \<Rightarrow> (Raised y, s2, t3)
                   | Returns _ \<Rightarrow> (st2, s2, t3))))"

subsection \<open>The filter as the specification words it\<close>

text \<open>
  The specification's \<^verbatim>\<open>ExponentialFilter.update\<close>: the first call seeds the state with
  the raw value and returns it; a later call returns
  \<open>alpha * previous_filtered + (1 - alpha) * raw\<close> and stores that same value. This
  definition follows the specification, not the source; it is here to be compared with
  what \<open>mirror_body\<close> computes.
\<close>

definition spec_filter_update :: "real \<Rightarrow> real option \<Rightarrow> real \<Rightarrow> real \<times> real option" where
  "spec_filter_update a prev raw =
     (case prev of
        None \<Rightarrow> (raw, Some raw)
      | Some p \<Rightarrow> (let filtered = a * p + (1 - a) * raw in (filtered, Some filtered)))"

fun spec_filter_run :: "real \<Rightarrow> real option \<Rightarrow> real list \<Rightarrow> real list" where
  "spec_filter_run a prev [] = []"
| "spec_filter_run a prev (raw # raws) =
     (case spec_filter_update a prev raw of (out, prev') \<Rightarrow> out # spec_filter_run a prev' raws)"

subsection \<open>Reading a list of events\<close>

text \<open>The finite positions commanded to one actuator, in order.\<close>

fun targets :: "actuator_id \<Rightarrow> event list \<Rightarrow> real list" where
  "targets i [] = []"
| "targets i (SetPosition j (Some (Fin x)) v tq # t) =
     (if j = i then x # targets i t else targets i t)"
| "targets i (ev # t) = targets i t"

fun is_stop :: "event \<Rightarrow> bool" where
  "is_stop (SetStop i) = True"
| "is_stop ev = False"

fun is_query :: "event \<Rightarrow> bool" where
  "is_query (Query i) = True"
| "is_query ev = False"

text \<open>No stop command after the first query.\<close>

definition stops_before_queries :: "event list \<Rightarrow> bool" where
  "stops_before_queries t = (filter is_stop (dropWhile (\<lambda>ev. \<not> is_query ev) t) = [])"

text \<open>
  The commands one pass of the mirror loop may send when the leader is actuator \<open>i1\<close>
  and the follower actuator \<open>i2\<close>: the position hold of the leader, a finite position
  for the follower, and the sleep.
\<close>

fun mirror_event :: "actuator_id \<Rightarrow> actuator_id \<Rightarrow> event \<Rightarrow> bool" where
  "mirror_event i1 i2 (SetPosition i p v tq) =
     ((i = i1 \<and> p = Some NaN \<and> v = Some NaN \<and> tq = 15 / 1000) \<or>
      (i = i2 \<and> (case p of Some (Fin x) \<Rightarrow> True | _ \<Rightarrow> False) \<and> v = None \<and> tq = 1 / 10))"
| "mirror_event i1 i2 (Sleep d) = (d = 1 / 1000)"
| "mirror_event i1 i2 ev = False"

fun is_set_position :: "event \<Rightarrow> bool" where
  "is_set_position (SetPosition i p v tq) = True"
| "is_set_position ev = False"

text \<open>Every controller object in the dictionary talks to the actuator it is filed under.\<close>

definition cache_ok :: "app \<Rightarrow> bool" where
  "cache_ok s = (\<forall>i c. controllers s i = Some c \<longrightarrow> cid c = i)"

text \<open>
  A pass of the monitor loop in which no driver call is cancelled and the sleep of the
  handler returns.
\<close>

definition not_cancelled :: "monitor_iter \<Rightarrow> bool" where
  "not_cancelled e =
     (mo_stop1 e \<noteq> Raises CancelledError \<and> mo_stop2 e \<noteq> Raises CancelledError \<and>
      mo_query1 e \<noteq> Raises CancelledError \<and> mo_query2 e \<noteq> Raises CancelledError \<and>
      mo_sleep e \<noteq> Raises CancelledError \<and> mo_backoff e = Returns ())"

text \<open>
  A pass of the monitor loop in which a query raises \<open>TransportError\<close> (the first, or
  the second after the first has returned) and the sleep of the handler returns; and
  what such a pass sends through controller objects for the actuators \<open>i1\<close> and \<open>i2\<close>
  that are in the dictionary already.
\<close>

definition query_fails :: "monitor_iter \<Rightarrow> bool" where
  "query_fails e =
     ((mo_query1 e = Raises TransportError \<or>
       ((case mo_query1 e of Returns r \<Rightarrow> True | Raises x \<Rightarrow> False) \<and>
        mo_query2 e = Raises TransportError)) \<and>
      mo_backoff e = Returns ())"

definition failed_poll_events :: "actuator_id \<Rightarrow> actuator_id \<Rightarrow> monitor_iter \<Rightarrow> event list" where
  "failed_poll_events i1 i2 e =
     (if mo_query1 e = Raises TransportError
      then [Query i1, PrintError TransportError, Sleep 1]
      else [Query i1, Query i2, PrintError TransportError, Sleep 1])"

text \<open>
  A homing pass that goes round: the flag is not cleared from outside, the probe
  returns a reply that does not satisfy \<open>crossed\<close> (or no reply), the sleep returns.
\<close>

definition goes_round :: "(real \<Rightarrow> bool) \<Rightarrow> homing_iter \<Rightarrow> bool" where
  "goes_round crossed e =
     (\<not> hi_cancel e \<and>
      (case hi_probe e of
         Raises x \<Rightarrow> False
       | Returns None \<Rightarrow> True
       | Returns (Some st) \<Rightarrow> \<not> crossed (torque st)) \<and>
      hi_sleep e = Returns ())"

text \<open>A homing pass that finds the threshold crossed, with nothing failing after it.\<close>

definition crossing :: "(real \<Rightarrow> bool) \<Rightarrow> homing_iter \<Rightarrow> bool" where
  "crossing crossed e =
     (\<not> hi_cancel e \<and>
      (case hi_probe e of
         Raises x \<Rightarrow> False
       | Returns None \<Rightarrow> False
       | Returns (Some st) \<Rightarrow> crossed (torque st)) \<and>
      hi_exact e = Returns () \<and> hi_settle e = Returns ())"

subsection \<open>Concrete replies and schedules\<close>

definition tel :: "real \<Rightarrow> real \<Rightarrow> telemetry" where
  "tel p tq = \<lparr>position = p, velocity = 0, torque = tq\<rparr>"

text \<open>A pass of the mirror loop in which the leader is read at \<open>p\<close> and nothing fails.\<close>

definition pass :: "real \<Rightarrow> mirror_iter" where
  "pass p =
     \<lparr>mi_ui = [], mi_leader = Returns (Some (tel p 0)),
      mi_follower = Returns (Some (tel 0 0)), mi_sleep = Returns ()\<rparr>"

text \<open>The pass that finds STOP pressed.\<close>

definition stop_pass :: mirror_iter where
  "stop_pass =
     \<lparr>mi_ui = [PressStop], mi_leader = Returns None,
      mi_follower = Returns None, mi_sleep = Returns ()\<rparr>"

text \<open>
  A run of \<^verbatim>\<open>motor_control\<close>: the seeding query reads \<open>p0\<close>, the passes are \<open>its\<close>,
  and the first stop of \<^verbatim>\<open>finally\<close> has the outcome \<open>f1\<close>.
\<close>

definition run_env :: "real \<Rightarrow> mirror_iter list \<Rightarrow> unit outcome \<Rightarrow> mirror_env" where
  "run_env p0 its f1 =
     \<lparr>me_stop1 = Returns (), me_stop2 = Returns (), me_seed = Returns (Some (tel p0 0)),
      me_iters = its, me_final1 = f1, me_final2 = Returns ()\<rparr>"

text \<open>The session after the operator has set the filter coefficient to one half.\<close>

definition alpha_half :: app where
  "alpha_half = update_alpha (init\<lparr>alpha_entry := Parses (Fin (1 / 2))\<rparr>)"

text \<open>A homing pass in which the probe reads the torque \<open>tq\<close> and nothing fails.\<close>

definition probe :: "real \<Rightarrow> homing_iter" where
  "probe tq =
     \<lparr>hi_cancel = False, hi_probe = Returns (Some (tel 0 tq)), hi_exact = Returns (),
      hi_settle = Returns (), hi_sleep = Returns ()\<rparr>"

definition homing_run :: "homing_iter list \<Rightarrow> homing_env" where
  "homing_run its =
     \<lparr>he_stop1 = Returns (), he_stop2 = Returns (), he_first_stop = Returns (),
      he_pause = Returns (), he_iters = its, he_final_stop = Returns ()\<rparr>"

text \<open>A pass of the monitor loop whose first query raises \<open>x\<close>.\<close>

definition failing_poll :: "exn \<Rightarrow> monitor_iter" where
  "failing_poll x =
     \<lparr>mo_stop1 = Returns (), mo_stop2 = Returns (), mo_query1 = Raises x,
      mo_query2 = Returns None, mo_sleep = Returns (), mo_backoff = Returns ()\<rparr>"

text \<open>A pass of the monitor loop in which nothing fails.\<close>

definition good_poll :: monitor_iter where
  "good_poll =
     \<lparr>mo_stop1 = Returns (), mo_stop2 = Returns (), mo_query1 = Returns (Some (tel 0 0)),
      mo_query2 = Returns (Some (tel 7 0)), mo_sleep = Returns (), mo_backoff = Returns ()\<rparr>"

text \<open>The session once \<^verbatim>\<open>initialize_controllers\<close> has run for the first time.\<close>

definition warm :: app where
  "warm = state_of (initialize_controllers init (Returns ()) (Returns ()))"

text \<open>
  The session after a first \<^verbatim>\<open>initialize_controllers\<close> in which the leader's
  \<^verbatim>\<open>set_stop\<close> raised: the leader's object is in the dictionary, the follower's
  is not.
\<close>

definition half_warm :: app where
  "half_warm = state_of (initialize_controllers init (Raises TransportError) (Returns ()))"


text \<open>
  Two runs of \<^verbatim>\<open>motor_control\<close> in one session: the first is seeded at 1, makes one
  pass and is stopped; GO is pressed again and the second, seeded at 2, finds STOP
  pressed before its first pass.
\<close>

definition first_run :: "status \<times> app \<times> event list" where
  "first_run = motor_control (fst (start_control init)) (run_env 1 [pass 1, stop_pass] (Returns ()))"

definition second_run :: "status \<times> app \<times> event list" where
  "second_run =
     motor_control (fst (start_control (state_of first_run))) (run_env 2 [stop_pass] (Returns ()))"

text \<open>
  A pass of the mirror loop in which the window's thread has not pressed STOP or QUIT,
  so that the flag stays as it was; and a pass that goes round: the flag stays, the
  leader replies, the follower's command and the sleep return.
\<close>

definition keeps_running :: "mirror_iter \<Rightarrow> bool" where
  "keeps_running e = (PressStop \<notin> set (mi_ui e) \<and> PressQuit \<notin> set (mi_ui e))"

definition completes :: "mirror_iter \<Rightarrow> bool" where
  "completes e =
     (keeps_running e \<and>
      (case mi_leader e of Returns (Some st) \<Rightarrow> True | _ \<Rightarrow> False) \<and>
      (case mi_follower e of Returns r \<Rightarrow> True | Raises x \<Rightarrow> False) \<and>
      mi_sleep e = Returns ())"

text \<open>A pass of the mirror loop in which the leader's command raises.\<close>

definition leader_fails_pass :: mirror_iter where
  "leader_fails_pass =
     \<lparr>mi_ui = [], mi_leader = Raises TransportError,
      mi_follower = Returns (Some (tel 0 0)), mi_sleep = Returns ()\<rparr>"

text \<open>A pass of the monitor loop in which the leader's first \<^verbatim>\<open>set_stop\<close> raises.\<close>

definition stop_fails_poll :: monitor_iter where
  "stop_fails_poll = good_poll\<lparr>mo_stop1 := Raises TransportError\<rparr>"

section \<open>Properties\<close>

subsection \<open>Creating the controllers\<close>

lemmas proj_defs = status_of_def state_of_def sent_def

lemma initialize_controllers_cached:
  "controllers s 1 = Some c1 \<Longrightarrow> controllers s 2 = Some c2 \<Longrightarrow>
   initialize_controllers s a b = (Inr (c1, c2), s, [])"
  by (simp add: initialize_controllers_def)

lemma initialize_controllers_frame:
  "\<exists>n m. state_of (initialize_controllers s a b) = s\<lparr>next_addr := n, controllers := m\<rparr>"
proof -
  have triv: "s = s\<lparr>next_addr := next_addr s, controllers := controllers s\<rparr>" by simp
  show ?thesis
    unfolding initialize_controllers_def new_controller_def state_of_def
    by (cases a; cases b; cases "controllers s 1"; cases "controllers s 2")
       (auto simp: Let_def intro: exI [of _ "next_addr s"] triv)
qed

lemma initialize_controllers_keeps:
  "controllers s i = Some c \<Longrightarrow> controllers (state_of (initialize_controllers s a b)) i = Some c"
  unfolding initialize_controllers_def new_controller_def state_of_def
  by (cases a; cases b; cases "controllers s 1"; cases "controllers s 2")
     (auto simp: Let_def)

lemma initialize_controllers_result:
  "initialize_controllers s a b = (Inr (c1, c2), s', t) \<Longrightarrow>
   controllers s' 1 = Some c1 \<and> controllers s' 2 = Some c2"
  unfolding initialize_controllers_def new_controller_def
  by (cases a; cases b; cases "controllers s 1"; cases "controllers s 2")
     (auto simp: Let_def)

lemma initialize_controllers_sent:
  "sent (initialize_controllers s a b) =
     (if controllers s 1 = None then [SetStop 1] else []) @
     (if controllers s 2 = None \<and> (controllers s 1 = None \<longrightarrow> a = Returns ()) then [SetStop 2] else [])"
  unfolding initialize_controllers_def new_controller_def sent_def
  by (cases a; cases b; cases "controllers s 1"; cases "controllers s 2")
     (auto simp: Let_def)

lemma initialize_controllers_stopped_is_cached:
  "SetStop i \<in> set (sent (initialize_controllers s a b)) \<Longrightarrow>
   controllers s i = None \<and> controllers (state_of (initialize_controllers s a b)) i \<noteq> None"
  unfolding initialize_controllers_def new_controller_def sent_def state_of_def
  by (cases a; cases b; cases "controllers s 1"; cases "controllers s 2")
     (auto simp: Let_def split: if_splits)

lemma initialize_controllers_cache_ok:
  "cache_ok s \<Longrightarrow> cache_ok (state_of (initialize_controllers s a b))"
  unfolding initialize_controllers_def new_controller_def state_of_def cache_ok_def
  by (cases a; cases b; cases "controllers s 1"; cases "controllers s 2")
     (auto simp: Let_def)

lemma initialize_controllers_cids:
  assumes "cache_ok s" and "initialize_controllers s a b = (Inr (c1, c2), s', t)"
  shows "cid c1 = 1 \<and> cid c2 = 2"
proof -
  have "cache_ok s'"
    using initialize_controllers_cache_ok [OF assms(1), of a b] assms(2) by (simp add: state_of_def)
  with initialize_controllers_result [OF assms(2)] show ?thesis
    by (simp add: cache_ok_def)
qed

lemma initialize_controllers_not_cancelled:
  "a \<noteq> Raises CancelledError \<Longrightarrow> b \<noteq> Raises CancelledError \<Longrightarrow>
   fst (initialize_controllers s a b) \<noteq> Inl CancelledError"
  unfolding initialize_controllers_def new_controller_def
  by (cases a; cases b; cases "controllers s 1"; cases "controllers s 2")
     (auto simp: Let_def)

subsection \<open>The monitor loop\<close>

lemma monitor_body_state:
  "state_of (monitor_body s e) = state_of (initialize_controllers s (mo_stop1 e) (mo_stop2 e))"
  unfolding monitor_body_def monitor_except_def state_of_def
  by (cases "initialize_controllers s (mo_stop1 e) (mo_stop2 e)")
     (auto simp: Let_def split: sum.splits outcome.splits prod.splits)

lemma monitor_body_cached:
  assumes "controllers s 1 = Some c1" and "controllers s 2 = Some c2"
  shows "state_of (monitor_body s e) = s"
    and "filter is_stop (sent (monitor_body s e)) = []"
    and "\<exists>rest. sent (monitor_body s e) = Query (cid c1) # rest"
  unfolding monitor_body_def monitor_except_def proj_defs
  by (auto simp: initialize_controllers_cached [OF assms] Let_def
           split: outcome.splits option.splits)

lemma monitor_body_not_cancelled:
  assumes "not_cancelled e"
  shows "fst (monitor_body s e) = None"
proof -
  obtain r s1 t1 where i: "initialize_controllers s (mo_stop1 e) (mo_stop2 e) = (r, s1, t1)"
    by (cases "initialize_controllers s (mo_stop1 e) (mo_stop2 e)")
  have r: "r \<noteq> Inl CancelledError"
    using initialize_controllers_not_cancelled [of "mo_stop1 e" "mo_stop2 e" s] i assms
    by (simp add: not_cancelled_def)
  show ?thesis
    using assms r i unfolding monitor_body_def monitor_except_def not_cancelled_def is_Exception_def
    by (auto simp: Let_def split: sum.splits outcome.splits prod.splits)
qed

lemma monitor_body_monitoring:
  "monitoring (state_of (monitor_body s e)) = monitoring s"
proof -
  obtain n m where
    "state_of (initialize_controllers s (mo_stop1 e) (mo_stop2 e)) = s\<lparr>next_addr := n, controllers := m\<rparr>"
    using initialize_controllers_frame by blast
  then show ?thesis by (simp add: monitor_body_state)
qed

lemma monitor_motors_Cons:
  "monitor_motors s (e # es) =
     (if \<not> monitoring s then (Returned, s, [])
      else if fst (monitor_body s e) \<noteq> None
      then (Raised (the (fst (monitor_body s e))), state_of (monitor_body s e), sent (monitor_body s e))
      else (status_of (monitor_motors (state_of (monitor_body s e)) es),
            state_of (monitor_motors (state_of (monitor_body s e)) es),
            sent (monitor_body s e) @ sent (monitor_motors (state_of (monitor_body s e)) es)))"
  by (cases "monitor_body s e"; cases "monitor_motors (state_of (monitor_body s e)) es")
     (auto simp: proj_defs)

lemma monitor_motors_append:
  "monitor_motors s (es @ es') =
     (if status_of (monitor_motors s es) = Pending
      then (status_of (monitor_motors (state_of (monitor_motors s es)) es'),
            state_of (monitor_motors (state_of (monitor_motors s es)) es'),
            sent (monitor_motors s es) @ sent (monitor_motors (state_of (monitor_motors s es)) es'))
      else monitor_motors s es)"
proof (induction es arbitrary: s)
  case Nil
  show ?case by (simp add: proj_defs)
next
  case (Cons e es)
  show ?case
    unfolding append_Cons monitor_motors_Cons [of s e]
    by (simp add: Cons.IH proj_defs)
qed

lemma monitor_not_cancelled:
  "monitoring s \<Longrightarrow> list_all not_cancelled es \<Longrightarrow>
   status_of (monitor_motors s es) = Pending \<and> monitoring (state_of (monitor_motors s es))"
proof (induction es arbitrary: s)
  case Nil
  then show ?case by (simp add: proj_defs)
next
  case (Cons e es)
  from Cons.prems have body: "fst (monitor_body s e) = None"
    using monitor_body_not_cancelled [of e s] by simp
  have "monitoring (state_of (monitor_body s e))"
    using monitor_body_monitoring [of s e] Cons.prems(1) by simp
  with Cons.IH [of "state_of (monitor_body s e)"] Cons.prems(2)
  have "status_of (monitor_motors (state_of (monitor_body s e)) es) = Pending \<and>
        monitoring (state_of (monitor_motors (state_of (monitor_body s e)) es))"
    by simp
  with body Cons.prems(1) show ?case
    unfolding monitor_motors_Cons [of s e es] by (simp add: proj_defs)
qed

lemma query_fails_not_cancelled:
  "query_fails e \<Longrightarrow> controllers s 1 = Some c1 \<Longrightarrow> controllers s 2 = Some c2 \<Longrightarrow>
   monitor_body s e = (None, s, failed_poll_events (cid c1) (cid c2) e)"
  unfolding monitor_body_def monitor_except_def query_fails_def failed_poll_events_def is_Exception_def
  by (auto simp: initialize_controllers_cached Let_def split: outcome.splits)

lemma monitor_query_failures:
  assumes "monitoring s" and "controllers s 1 = Some c1" and "controllers s 2 = Some c2"
    and "list_all query_fails es"
  shows "monitor_motors s es = (Pending, s, concat (map (failed_poll_events (cid c1) (cid c2)) es))"
  using assms(4)
proof (induction es)
  case Nil
  show ?case by simp
next
  case (Cons e es)
  then show ?case
    using assms(1) query_fails_not_cancelled [OF _ assms(2,3), of e] by simp
qed

lemma monitor_keeps:
  "controllers s i = Some c \<Longrightarrow> controllers (state_of (monitor_motors s es)) i = Some c"
proof (induction es arbitrary: s)
  case Nil
  then show ?case by (simp add: proj_defs)
next
  case (Cons e es)
  have "controllers (state_of (monitor_body s e)) i = Some c"
    using initialize_controllers_keeps [OF Cons.prems] by (simp add: monitor_body_state)
  from Cons.IH [OF this] this Cons.prems show ?case
    unfolding monitor_motors_Cons [of s e es] by (simp add: proj_defs)
qed

lemma monitor_cached:
  assumes "controllers s 1 = Some c1" and "controllers s 2 = Some c2"
  shows "state_of (monitor_motors s es) = s \<and> filter is_stop (sent (monitor_motors s es)) = []"
proof (induction es)
  case Nil
  show ?case by (simp add: proj_defs)
next
  case (Cons e es)
  show ?case
    unfolding monitor_motors_Cons [of s e es]
    using Cons.IH monitor_body_cached(1,2) [OF assms, of e]
    by (simp add: proj_defs)
qed

lemma initialize_controllers_only_stops:
  "ev \<in> set (sent (initialize_controllers s a b)) \<Longrightarrow> is_stop ev \<and> \<not> is_query ev"
  by (auto simp: initialize_controllers_sent split: if_splits)

lemma monitor_body_sent:
  "\<exists>rest. sent (monitor_body s e) = sent (initialize_controllers s (mo_stop1 e) (mo_stop2 e)) @ rest \<and>
          filter is_stop rest = [] \<and>
          (filter is_query rest \<noteq> [] \<longrightarrow>
             controllers (state_of (monitor_body s e)) 1 \<noteq> None \<and>
             controllers (state_of (monitor_body s e)) 2 \<noteq> None)"
proof -
  obtain r s1 t1 where i: "initialize_controllers s (mo_stop1 e) (mo_stop2 e) = (r, s1, t1)"
    by (cases "initialize_controllers s (mo_stop1 e) (mo_stop2 e)")
  show ?thesis
  proof (cases r)
    case (Inl x)
    with i show ?thesis
      unfolding monitor_body_def monitor_except_def proj_defs
      by (auto split: outcome.splits)
  next
    case (Inr cs)
    obtain c1 c2 where cs: "cs = (c1, c2)" by (cases cs)
    from initialize_controllers_result [of s "mo_stop1 e" "mo_stop2 e" c1 c2 s1 t1] i Inr cs
    have cached: "controllers s1 1 = Some c1 \<and> controllers s1 2 = Some c2" by simp
    with i Inr cs show ?thesis
      unfolding monitor_body_def monitor_except_def proj_defs
      by (auto simp: Let_def split: outcome.splits option.splits)
  qed
qed

lemma stop_free_dropWhile:
  "filter is_stop t = [] \<Longrightarrow> filter is_stop (dropWhile P t) = []"
  by (auto simp: filter_empty_conv dest: set_dropWhileD)

lemma monitor_stops_before_queries:
  "stops_before_queries (sent (monitor_motors s es))"
proof (induction es arbitrary: s)
  case Nil
  show ?case by (simp add: proj_defs stops_before_queries_def)
next
  case (Cons e es)
  let ?i = "sent (initialize_controllers s (mo_stop1 e) (mo_stop2 e))"
  let ?s1 = "state_of (monitor_body s e)"
  let ?l = "sent (monitor_motors ?s1 es)"
  obtain rest where body: "sent (monitor_body s e) = ?i @ rest"
    and rest: "filter is_stop rest = []"
    and cached: "filter is_query rest \<noteq> [] \<longrightarrow> controllers ?s1 1 \<noteq> None \<and> controllers ?s1 2 \<noteq> None"
    using monitor_body_sent [of s e] by blast
  have i: "\<And>ev. ev \<in> set ?i \<Longrightarrow> \<not> is_query ev"
    using initialize_controllers_only_stops by blast
  have drop_i: "\<And>ys. dropWhile (\<lambda>ev. \<not> is_query ev) (?i @ ys) = dropWhile (\<lambda>ev. \<not> is_query ev) ys"
    using i by simp
  have alone: "stops_before_queries (?i @ rest)"
    unfolding stops_before_queries_def drop_i using rest by (rule stop_free_dropWhile)
  have both: "stops_before_queries (?i @ rest @ ?l)"
  proof (cases "filter is_query rest = []")
    case True
    then have "\<And>ev. ev \<in> set rest \<Longrightarrow> \<not> is_query ev" by (simp add: filter_empty_conv)
    then have "dropWhile (\<lambda>ev. \<not> is_query ev) (rest @ ?l) = dropWhile (\<lambda>ev. \<not> is_query ev) ?l"
      by simp
    with Cons.IH [of ?s1] show ?thesis
      unfolding stops_before_queries_def drop_i by simp
  next
    case False
    with cached obtain c1 c2 where "controllers ?s1 1 = Some c1" "controllers ?s1 2 = Some c2" by auto
    then have "filter is_stop ?l = []" using monitor_cached by blast
    with rest have "filter is_stop (rest @ ?l) = []" by simp
    then show ?thesis
      unfolding stops_before_queries_def drop_i by (rule stop_free_dropWhile)
  qed
  show ?case
    unfolding monitor_motors_Cons [of s e es]
    using alone both body by (simp add: proj_defs stops_before_queries_def)
qed

lemma count_stop_initialize:
  "length (filter (\<lambda>ev. ev = SetStop i) (sent (initialize_controllers s a b))) \<le>
     (if controllers s i = None then 1 else 0)"
  by (auto simp: initialize_controllers_sent)

lemma count_stop_free:
  "filter is_stop t = [] \<Longrightarrow> filter (\<lambda>ev. ev = SetStop i) t = []"
  by (auto simp: filter_empty_conv)

lemma monitor_stops_at_most_once:
  "length (filter (\<lambda>ev. ev = SetStop i) (sent (monitor_motors s es))) \<le>
     (if controllers s i = None then 1 else 0)"
proof (induction es arbitrary: s)
  case Nil
  show ?case by (simp add: proj_defs)
next
  case (Cons e es)
  let ?init = "initialize_controllers s (mo_stop1 e) (mo_stop2 e)"
  let ?s1 = "state_of (monitor_body s e)"
  let ?l = "sent (monitor_motors ?s1 es)"
  let ?n = "\<lambda>t. length (filter (\<lambda>ev. ev = SetStop i) t)"
  obtain rest where body: "sent (monitor_body s e) = sent ?init @ rest"
    and rest: "filter is_stop rest = []"
    using monitor_body_sent [of s e] by blast
  have n_body: "?n (sent (monitor_body s e)) = ?n (sent ?init)"
    using body count_stop_free [OF rest, of i] by simp
  have n_init: "?n (sent ?init) \<le> (if controllers s i = None then 1 else 0)"
    by (rule count_stop_initialize)
  have total: "?n (sent ?init) + ?n ?l \<le> (if controllers s i = None then 1 else 0)"
  proof (cases "SetStop i \<in> set (sent ?init)")
    case True
    then have "controllers ?s1 i \<noteq> None"
      using initialize_controllers_stopped_is_cached [of i s] by (simp add: monitor_body_state)
    with Cons.IH [of ?s1] have "?n ?l = 0" by simp
    with n_init show ?thesis by simp
  next
    case False
    then have zero: "?n (sent ?init) = 0" by (auto simp: filter_empty_conv)
    show ?thesis
    proof (cases "controllers s i")
      case None
      with Cons.IH [of ?s1] zero show ?thesis by (simp split: if_splits)
    next
      case (Some c)
      then have "controllers ?s1 i = Some c"
        using initialize_controllers_keeps [of s i c] by (simp add: monitor_body_state)
      with Cons.IH [of ?s1] zero Some show ?thesis by simp
    qed
  qed
  show ?case
  proof (cases "monitoring s")
    case False
    then show ?thesis by (simp add: proj_defs)
  next
    case True
    show ?thesis
    proof (cases "fst (monitor_body s e)")
      case None
      with True have "sent (monitor_motors s (e # es)) = sent (monitor_body s e) @ ?l"
        unfolding monitor_motors_Cons [of s e es] by (simp add: proj_defs)
      then have "?n (sent (monitor_motors s (e # es))) = ?n (sent ?init) + ?n ?l"
        using n_body by simp
      then show ?thesis by (simp only: total)
    next
      case (Some x)
      with True have "sent (monitor_motors s (e # es)) = sent (monitor_body s e)"
        unfolding monitor_motors_Cons [of s e es] by (simp add: proj_defs)
      then have "?n (sent (monitor_motors s (e # es))) = ?n (sent ?init)"
        using n_body by simp
      then show ?thesis by (simp only: n_init)
    qed
  qed
qed

lemma monitor_first_pass:
  assumes "monitoring s"
  shows "\<exists>rest. sent (monitor_motors s (e # es)) =
           sent (initialize_controllers s (mo_stop1 e) (mo_stop2 e)) @ rest"
proof -
  obtain rest where "sent (monitor_body s e) = sent (initialize_controllers s (mo_stop1 e) (mo_stop2 e)) @ rest"
    using monitor_body_sent [of s e] by blast
  with assms show ?thesis
    unfolding monitor_motors_Cons [of s e es] by (simp add: proj_defs)
qed

lemmas run_defs = motor_control_def start_control_def stop_control_def quit_app_def
  update_alpha_def init_def initialize_controllers_def new_controller_def mirror_body_def
  apply_uis_def tel_def pass_def stop_pass_def run_env_def alpha_half_def

lemma warm_facts:
  "monitoring warm"
  "controllers warm 1 = Some \<lparr>addr = 1, cid = 1\<rparr>"
  "controllers warm 2 = Some \<lparr>addr = 2, cid = 2\<rparr>"
  "cache_ok warm"
  by (simp_all add: warm_def state_of_def initialize_controllers_def new_controller_def
        init_def cache_ok_def)

lemma half_warm_facts:
  "monitoring half_warm"
  "controllers half_warm 1 = Some \<lparr>addr = 1, cid = 1\<rparr>"
  "controllers half_warm 2 = None"
  by (simp_all add: half_warm_def state_of_def initialize_controllers_def new_controller_def
        init_def)

text \<open>
  Claim C9. Query failures never end the monitor loop. First part: whatever the passes
  raise, as long as no call is cancelled and the one-second sleep of the handler
  returns, the loop is still running after them and \<^verbatim>\<open>self.monitoring\<close> is still set.
  Second part: in a session whose two controller objects exist, after any number of
  passes in which a query raised \<open>TransportError\<close> the loop has sent, pass by pass,
  the query, the printed error and the one-second sleep, nothing else, and the next
  pass starts with the query of the leader again.
\<close>

theorem monitor_survives_query_failures:
  "(monitoring s \<and> list_all not_cancelled es \<longrightarrow>
      status_of (monitor_motors s es) = Pending \<and> monitoring (state_of (monitor_motors s es)))
   \<and> (monitoring s \<and> controllers s 1 = Some c1 \<and> controllers s 2 = Some c2 \<and>
       list_all query_fails es \<longrightarrow>
         monitor_motors s es =
           (Pending, s, concat (map (failed_poll_events (cid c1) (cid c2)) es))
         \<and> (\<exists>rest. sent (monitor_motors s (es @ [e])) =
               concat (map (failed_poll_events (cid c1) (cid c2)) es) @ Query (cid c1) # rest))"
proof (intro conjI impI)
  assume "monitoring s \<and> list_all not_cancelled es"
  then show "status_of (monitor_motors s es) = Pending"
    and "monitoring (state_of (monitor_motors s es))"
    using monitor_not_cancelled [of s es] by simp_all
next
  assume a: "monitoring s \<and> controllers s 1 = Some c1 \<and> controllers s 2 = Some c2 \<and>
    list_all query_fails es"
  then show run: "monitor_motors s es =
      (Pending, s, concat (map (failed_poll_events (cid c1) (cid c2)) es))"
    using monitor_query_failures [of s c1 c2 es] by simp
  from a obtain rest where "sent (monitor_body s e) = Query (cid c1) # rest"
    using monitor_body_cached(3) [of s c1 c2 e] by blast
  with a have "\<exists>rest. sent (monitor_motors s [e]) = Query (cid c1) # rest"
    unfolding monitor_motors_Cons [of s e "[]"] by (simp add: proj_defs)
  then show "\<exists>rest. sent (monitor_motors s (es @ [e])) =
      concat (map (failed_poll_events (cid c1) (cid c2)) es) @ Query (cid c1) # rest"
    unfolding monitor_motors_append [of s es "[e]"] by (simp add: run proj_defs)
qed

theorem monitor_survives_query_failures_witness:
  "monitoring warm \<and> list_all not_cancelled [failing_poll TransportError, good_poll]
   \<and> controllers warm 1 = Some \<lparr>addr = 1, cid = 1\<rparr> \<and> controllers warm 2 = Some \<lparr>addr = 2, cid = 2\<rparr>
   \<and> list_all query_fails [failing_poll TransportError, failing_poll TransportError]
   \<and> status_of (monitor_motors warm [failing_poll TransportError, good_poll]) = Pending
   \<and> monitor_motors warm [failing_poll TransportError, failing_poll TransportError] =
       (Pending, warm,
        [Query 1, PrintError TransportError, Sleep 1, Query 1, PrintError TransportError, Sleep 1])
   \<and> (\<exists>rest. sent (monitor_motors warm
          ([failing_poll TransportError, failing_poll TransportError] @ [good_poll])) =
        [Query 1, PrintError TransportError, Sleep 1, Query 1, PrintError TransportError, Sleep 1]
          @ Query 1 # rest)"
proof -
  let ?c1 = "\<lparr>addr = 1, cid = 1\<rparr>" and ?c2 = "\<lparr>addr = 2, cid = 2\<rparr>"
  let ?fp = "failing_poll TransportError"
  have n: "list_all not_cancelled [?fp, good_poll]"
    by (simp add: not_cancelled_def failing_poll_def good_poll_def)
  have q: "list_all query_fails [?fp, ?fp]"
    by (simp add: query_fails_def failing_poll_def)
  have f: "concat (map (failed_poll_events 1 2) [?fp, ?fp]) =
      [Query 1, PrintError TransportError, Sleep 1, Query 1, PrintError TransportError, Sleep 1]"
    by (simp add: failed_poll_events_def failing_poll_def)
  have c: "cid ?c1 = 1" "cid ?c2 = 2" by simp_all
  from monitor_survives_query_failures [of warm "[?fp, good_poll]" ?c1 ?c2 good_poll]
    warm_facts(1) n
  have A: "status_of (monitor_motors warm [?fp, good_poll]) = Pending" by blast
  from monitor_survives_query_failures [of warm "[?fp, ?fp]" ?c1 ?c2 good_poll]
    warm_facts(1-3) q
  have B: "monitor_motors warm [?fp, ?fp] =
        (Pending, warm, concat (map (failed_poll_events (cid ?c1) (cid ?c2)) [?fp, ?fp]))"
    and C: "\<exists>rest. sent (monitor_motors warm ([?fp, ?fp] @ [good_poll])) =
        concat (map (failed_poll_events (cid ?c1) (cid ?c2)) [?fp, ?fp]) @ Query (cid ?c1) # rest"
    by blast+
  from B have B': "monitor_motors warm [?fp, ?fp] =
        (Pending, warm,
         [Query 1, PrintError TransportError, Sleep 1, Query 1, PrintError TransportError, Sleep 1])"
    by (simp only: c f)
  from C have C': "\<exists>rest. sent (monitor_motors warm ([?fp, ?fp] @ [good_poll])) =
        [Query 1, PrintError TransportError, Sleep 1, Query 1, PrintError TransportError, Sleep 1]
          @ Query 1 # rest"
    by (simp only: c f)
  from warm_facts(1-3) n q A B' C' show ?thesis by blast
qed

subsection \<open>The alpha entry\<close>

text \<open>
  Claim C8. \<^verbatim>\<open>update_alpha\<close> takes a finite number between 0 and 1 as the new
  coefficient and leaves the coefficient as it was for every other content of the
  entry: a finite number outside the interval, an infinity, a not-a-number, or a text
  that \<^verbatim>\<open>float\<close> rejects. In every case \<^verbatim>\<open>prevfiltpos\<close> stays as it was.
\<close>

theorem update_alpha_range_check:
  "alpha (update_alpha (s\<lparr>alpha_entry := Parses (Fin a)\<rparr>)) =
     (if 0 \<le> a \<and> a \<le> 1 then a else alpha s)
   \<and> alpha (update_alpha (s\<lparr>alpha_entry := Parses PosInf\<rparr>)) = alpha s
   \<and> alpha (update_alpha (s\<lparr>alpha_entry := Parses NegInf\<rparr>)) = alpha s
   \<and> alpha (update_alpha (s\<lparr>alpha_entry := Parses NaN\<rparr>)) = alpha s
   \<and> alpha (update_alpha (s\<lparr>alpha_entry := Unparseable\<rparr>)) = alpha s
   \<and> prevfiltpos (update_alpha (s\<lparr>alpha_entry := v\<rparr>)) = prevfiltpos s"
  by (simp add: update_alpha_def split: entry_text.splits pyfloat.splits)

theorem update_alpha_range_check_witness:
  "alpha (update_alpha (init\<lparr>alpha_entry := Parses (Fin (1 / 2))\<rparr>)) = 1 / 2
   \<and> alpha (update_alpha (init\<lparr>alpha_entry := Parses (Fin 2)\<rparr>)) = 95 / 100
   \<and> alpha (update_alpha (init\<lparr>alpha_entry := Parses NaN\<rparr>)) = 95 / 100
   \<and> prevfiltpos (update_alpha (init\<lparr>alpha_entry := Parses (Fin 2)\<rparr>)) = None"
  using update_alpha_range_check [where s = init and a = "1 / 2" and v = "Parses (Fin 2)"]
    update_alpha_range_check [where s = init and a = 2 and v = "Parses (Fin 2)"]
  by (simp add: init_def)

subsection \<open>What the mirror loop stores and how it ends\<close>

text \<open>
  Claim C1, at an input where the code departs from it. STOP is pressed after one pass
  of the loop and the leader's \<^verbatim>\<open>set_stop\<close> in \<^verbatim>\<open>finally\<close> raises: the coroutine
  ends with that exception and the last thing the follower was sent is its position
  command, not a stop.
\<close>

theorem motor_control_leader_stop_raises:
  "status_of (motor_control (fst (start_control init))
      (run_env 0 [pass 0, stop_pass] (Raises TransportError))) = Raised TransportError
   \<and> sent (motor_control (fst (start_control init))
      (run_env 0 [pass 0, stop_pass] (Raises TransportError))) =
     [SetStop 1, SetStop 2, Query 1,
      SetPosition 1 (Some NaN) (Some NaN) (15 / 1000),
      SetPosition 2 (Some (Fin 7)) None (1 / 10),
      Sleep (1 / 1000),
      SetStop 1]"
  by (simp add: run_defs proj_defs)

text \<open>
  Claim C2, at an input where the code departs from it. With the coefficient one half,
  a seed of 0 and the leader read at 1 and again at 1, the follower is sent to
  \<open>7 - 1/2\<close> and then to \<open>7 - 1\<close>; the filter of the specification gives \<open>7 - 1/2\<close>
  and then \<open>7 - 3/4\<close>. After the first pass \<^verbatim>\<open>prevfiltpos\<close> holds the raw reading 1,
  not the filtered value one half.
\<close>

theorem mirror_stores_raw_position:
  "targets 2 (sent (motor_control (fst (start_control alpha_half))
      (run_env 0 [pass 1, pass 1, stop_pass] (Returns ())))) = [13 / 2, 6]
   \<and> map (\<lambda>f. 7 - f) (tl (spec_filter_run (1 / 2) None [0, 1, 1])) = [13 / 2, 25 / 4]
   \<and> targets 2 (sent (motor_control (fst (start_control alpha_half))
      (run_env 0 [pass 1] (Returns ())))) = [13 / 2]
   \<and> prevfiltpos (state_of (motor_control (fst (start_control alpha_half))
      (run_env 0 [pass 1] (Returns ())))) = Some 1"
  by (simp add: run_defs proj_defs spec_filter_update_def Let_def)

subsection \<open>Homing\<close>

text \<open>
  Claim C4, at an input where the code departs from it. The trigger (actuator 1) is
  homed and the third probe reads a torque of -0.025: the run sends one stream command
  \<^verbatim>\<open>d exact 0\<close> on that pass, reports success and probes no more, but the command
  goes through the stream of \<^verbatim>\<open>__init__\<close>, which talks to actuator 2. The second
  equation is the gripper's run, whose command \<^verbatim>\<open>d exact 7\<close> goes to actuator 2 as
  well.
\<close>

theorem home_trigger_rezeroes_gripper:
  "home_trigger init (homing_run [probe 0, probe 0, probe (- (25 / 1000))]) =
     (Returned,
      warm,
      [SetStop 1, SetStop 2, SetStop 1, Sleep (1 / 10),
       SetPosition 1 (Some NaN) (Some (Fin (- (1 / 2)))) (3 / 100), Sleep (1 / 100),
       SetPosition 1 (Some NaN) (Some (Fin (- (1 / 2)))) (3 / 100), Sleep (1 / 100),
       SetPosition 1 (Some NaN) (Some (Fin (- (1 / 2)))) (3 / 100),
       StreamCommand 2 ''d exact 0'', Sleep (1 / 10),
       ShowInfo ''Success'' ''Trigger homing completed'', SetStop 1])
   \<and> home_gripper init (homing_run [probe 0, probe (35 / 1000)]) =
     (Returned,
      warm,
      [SetStop 1, SetStop 2, SetStop 2, Sleep (1 / 10),
       SetPosition 2 (Some NaN) (Some (Fin (1 / 2))) (5 / 100), Sleep (1 / 100),
       SetPosition 2 (Some NaN) (Some (Fin (1 / 2))) (5 / 100),
       StreamCommand 2 ''d exact 7'', Sleep (1 / 10),
       ShowInfo ''Success'' ''Gripper homing completed'', SetStop 2])"
  by (simp add: home_trigger_def home_trigger_try_def home_gripper_def home_gripper_try_def
        homing_run_def probe_def tel_def init_def initialize_controllers_def
        new_controller_def warm_def state_of_def)

text \<open>
  Claim C5, at an input where the code departs from it. A call of \<^verbatim>\<open>home_trigger\<close>
  that finds \<^verbatim>\<open>homing_trigger\<close> set returns inside \<^verbatim>\<open>try\<close>, so \<^verbatim>\<open>finally\<close> runs:
  it clears the flag of the procedure in flight, enables the button, and ends with
  \<open>UnboundLocalError\<close> before any command is sent. \<^verbatim>\<open>home_gripper\<close> does the same.
\<close>

theorem homing_reentry_clears_flag:
  "home_trigger (s\<lparr>homing_trigger := True\<rparr>) env =
     (Raised UnboundLocalError, s\<lparr>homing_trigger := False, hometrig_btn := True\<rparr>, [])
   \<and> home_gripper (s\<lparr>homing_gripper := True\<rparr>) env =
     (Raised UnboundLocalError, s\<lparr>homing_gripper := False, homegrip_btn := True\<rparr>, [])"
  by (simp add: home_trigger_def home_trigger_try_def home_gripper_def home_gripper_try_def)

lemma monitor_body_leader_stop_raises:
  assumes "controllers s 1 = None" and "mo_stop1 e = Raises x"
  shows "controllers (state_of (monitor_body s e)) 1 \<noteq> None \<and>
         controllers (state_of (monitor_body s e)) 2 = controllers s 2 \<and>
         filter is_stop (sent (monitor_body s e)) = [SetStop 1]"
  using assms
  unfolding monitor_body_def monitor_except_def initialize_controllers_def new_controller_def
    proj_defs
  by (cases "mo_backoff e") (simp_all add: Let_def)

lemma monitor_motors_single:
  "monitoring s \<Longrightarrow>
   state_of (monitor_motors s [e]) = state_of (monitor_body s e) \<and>
   sent (monitor_motors s [e]) = sent (monitor_body s e)"
  unfolding monitor_motors_Cons [of s e "[]"] by (simp add: proj_defs)

text \<open>
  Claim C10 is false as stated. In a fresh session whose first pass has the leader's
  \<^verbatim>\<open>set_stop\<close> raise, that pass sends the leader's stop, prints the error and sleeps:
  the follower's controller object is not made in this pass although it is not in the
  dictionary. It is made, and the follower stopped, at the start of the second pass.
\<close>

theorem leader_stop_raises_defers_follower:
  "monitoring init \<and> controllers init 1 = None \<and> controllers init 2 = None
   \<and> status_of (monitor_motors init [stop_fails_poll]) = Pending
   \<and> sent (monitor_motors init [stop_fails_poll]) =
       [SetStop 1, PrintError TransportError, Sleep 1]
   \<and> controllers (state_of (monitor_motors init [stop_fails_poll])) 2 = None
   \<and> sent (monitor_motors init [stop_fails_poll, good_poll]) =
       [SetStop 1, PrintError TransportError, Sleep 1,
        SetStop 2, Query 1, Query 2, UpdatePositions 0 7 0 0, Sleep (1 / 1000)]"
  by (simp add: monitor_body_def monitor_except_def is_Exception_def stop_fails_poll_def
        good_poll_def tel_def init_def initialize_controllers_def new_controller_def proj_defs)

text \<open>
  Claim C10, amended. The monitor loop stops an actuator when it makes its controller
  object and at no other time. For every run from every session: no stop command
  follows a query, and each actuator is sent at most one stop, none if its controller
  object was in the dictionary already. In the first pass of a session without the
  leader's object, the first command is the leader's stop and the object is in the
  dictionary afterwards. When the follower's object is missing too, its stop comes
  next in the same pass if the leader's stop returns; if the leader's stop raises, the
  pass sends no other stop and leaves the follower's entry as it was. In a pass that
  finds the leader's object but not the follower's, the follower's stop comes first,
  which is what the pass after a failed leader stop does.
\<close>

theorem monitor_stops_on_creation_only:
  "stops_before_queries (sent (monitor_motors s es))
   \<and> length (filter (\<lambda>ev. ev = SetStop i) (sent (monitor_motors s es))) \<le>
       (if controllers s i = None then 1 else 0)
   \<and> (monitoring s \<and> controllers s 1 = None \<longrightarrow>
        (\<exists>rest. sent (monitor_motors s (e # es)) = SetStop 1 # rest) \<and>
        controllers (state_of (monitor_motors s (e # es))) 1 \<noteq> None)
   \<and> (monitoring s \<and> controllers s 1 = None \<and> controllers s 2 = None \<and>
       mo_stop1 e = Returns () \<longrightarrow>
        (\<exists>rest. sent (monitor_motors s (e # es)) = SetStop 1 # SetStop 2 # rest) \<and>
        controllers (state_of (monitor_motors s (e # es))) 2 \<noteq> None)
   \<and> (monitoring s \<and> controllers s 1 \<noteq> None \<and> controllers s 2 = None \<longrightarrow>
        (\<exists>rest. sent (monitor_motors s (e # es)) = SetStop 2 # rest) \<and>
        controllers (state_of (monitor_motors s (e # es))) 2 \<noteq> None)
   \<and> (monitoring s \<and> controllers s 1 = None \<and> mo_stop1 e = Raises x \<longrightarrow>
        controllers (state_of (monitor_motors s [e])) 1 \<noteq> None \<and>
        controllers (state_of (monitor_motors s [e])) 2 = controllers s 2 \<and>
        filter is_stop (sent (monitor_motors s [e])) = [SetStop 1])"
proof -
  let ?init = "initialize_controllers s (mo_stop1 e) (mo_stop2 e)"
  have kept: "\<And>j. controllers (state_of ?init) j \<noteq> None \<Longrightarrow> monitoring s \<Longrightarrow>
      controllers (state_of (monitor_motors s (e # es))) j \<noteq> None"
  proof -
    fix j
    assume "controllers (state_of ?init) j \<noteq> None" and m: "monitoring s"
    then obtain c where c: "controllers (state_of (monitor_body s e)) j = Some c"
      by (auto simp: monitor_body_state)
    from monitor_keeps [OF c, of es] c m
    show "controllers (state_of (monitor_motors s (e # es))) j \<noteq> None"
      unfolding monitor_motors_Cons [of s e es] by (simp add: proj_defs)
  qed
  have first: "monitoring s \<Longrightarrow> \<exists>rest. sent (monitor_motors s (e # es)) = sent ?init @ rest"
    by (rule monitor_first_pass)
  have created: "\<And>j. SetStop j \<in> set (sent ?init) \<Longrightarrow> controllers (state_of ?init) j \<noteq> None"
    using initialize_controllers_stopped_is_cached by blast
  have A: "monitoring s \<and> controllers s 1 = None \<longrightarrow>
        (\<exists>rest. sent (monitor_motors s (e # es)) = SetStop 1 # rest) \<and>
        controllers (state_of (monitor_motors s (e # es))) 1 \<noteq> None"
  proof
    assume a: "monitoring s \<and> controllers s 1 = None"
    then have "\<exists>t. sent ?init = SetStop 1 # t" by (simp add: initialize_controllers_sent)
    moreover from this have "SetStop 1 \<in> set (sent ?init)" by auto
    ultimately show "(\<exists>rest. sent (monitor_motors s (e # es)) = SetStop 1 # rest) \<and>
        controllers (state_of (monitor_motors s (e # es))) 1 \<noteq> None"
      using first kept created a by fastforce
  qed
  have B: "monitoring s \<and> controllers s 1 = None \<and> controllers s 2 = None \<and>
       mo_stop1 e = Returns () \<longrightarrow>
        (\<exists>rest. sent (monitor_motors s (e # es)) = SetStop 1 # SetStop 2 # rest) \<and>
        controllers (state_of (monitor_motors s (e # es))) 2 \<noteq> None"
  proof
    assume a: "monitoring s \<and> controllers s 1 = None \<and> controllers s 2 = None \<and>
       mo_stop1 e = Returns ()"
    then have "sent ?init = [SetStop 1, SetStop 2]" by (simp add: initialize_controllers_sent)
    moreover from this have "SetStop 2 \<in> set (sent ?init)" by auto
    ultimately show "(\<exists>rest. sent (monitor_motors s (e # es)) = SetStop 1 # SetStop 2 # rest) \<and>
        controllers (state_of (monitor_motors s (e # es))) 2 \<noteq> None"
      using first kept created a by fastforce
  qed
  have C: "monitoring s \<and> controllers s 1 \<noteq> None \<and> controllers s 2 = None \<longrightarrow>
        (\<exists>rest. sent (monitor_motors s (e # es)) = SetStop 2 # rest) \<and>
        controllers (state_of (monitor_motors s (e # es))) 2 \<noteq> None"
  proof
    assume a: "monitoring s \<and> controllers s 1 \<noteq> None \<and> controllers s 2 = None"
    then have "sent ?init = [SetStop 2]" by (auto simp: initialize_controllers_sent)
    moreover from this have "SetStop 2 \<in> set (sent ?init)" by auto
    ultimately show "(\<exists>rest. sent (monitor_motors s (e # es)) = SetStop 2 # rest) \<and>
        controllers (state_of (monitor_motors s (e # es))) 2 \<noteq> None"
      using first kept created a by fastforce
  qed
  have D: "monitoring s \<and> controllers s 1 = None \<and> mo_stop1 e = Raises x \<longrightarrow>
        controllers (state_of (monitor_motors s [e])) 1 \<noteq> None \<and>
        controllers (state_of (monitor_motors s [e])) 2 = controllers s 2 \<and>
        filter is_stop (sent (monitor_motors s [e])) = [SetStop 1]"
    using monitor_body_leader_stop_raises [of s e x] monitor_motors_single [of s e]
    by simp
  from monitor_stops_before_queries [of s es] monitor_stops_at_most_once [of i s es] A B C D
  show ?thesis by blast
qed

lemma launch_run:
  "monitor_motors init [good_poll, good_poll] =
     (Pending, warm,
      [SetStop 1, SetStop 2,
       Query 1, Query 2, UpdatePositions 0 7 0 0, Sleep (1 / 1000),
       Query 1, Query 2, UpdatePositions 0 7 0 0, Sleep (1 / 1000)])"
  by (simp add: monitor_body_def good_poll_def tel_def init_def initialize_controllers_def
        new_controller_def warm_def state_of_def)

theorem monitor_stops_on_creation_only_witness:
  "monitoring init \<and> controllers init 1 = None \<and> controllers init 2 = None
   \<and> mo_stop1 good_poll = Returns ()
   \<and> stops_before_queries (sent (monitor_motors init [good_poll, good_poll]))
   \<and> length (filter (\<lambda>ev. ev = SetStop 2) (sent (monitor_motors init [good_poll, good_poll]))) \<le> 1
   \<and> (\<exists>rest. sent (monitor_motors init [good_poll, good_poll]) = SetStop 1 # SetStop 2 # rest)
   \<and> controllers (state_of (monitor_motors init [good_poll, good_poll])) 1 \<noteq> None
   \<and> controllers (state_of (monitor_motors init [good_poll, good_poll])) 2 \<noteq> None
   \<and> monitoring warm \<and> controllers warm 1 \<noteq> None
   \<and> length (filter (\<lambda>ev. ev = SetStop 1) (sent (monitor_motors warm [good_poll, good_poll]))) \<le> 0
   \<and> monitoring half_warm \<and> controllers half_warm 1 \<noteq> None \<and> controllers half_warm 2 = None
   \<and> (\<exists>rest. sent (monitor_motors half_warm [good_poll]) = SetStop 2 # rest)
   \<and> controllers (state_of (monitor_motors half_warm [good_poll])) 2 \<noteq> None
   \<and> mo_stop1 stop_fails_poll = Raises TransportError
   \<and> controllers (state_of (monitor_motors init [stop_fails_poll])) 1 \<noteq> None
   \<and> controllers (state_of (monitor_motors init [stop_fails_poll])) 2 = None
   \<and> filter is_stop (sent (monitor_motors init [stop_fails_poll])) = [SetStop 1]"
proof -
  have h: "monitoring init" "controllers init 1 = None" "controllers init 2 = None"
    "mo_stop1 good_poll = Returns ()"
    by (simp_all add: init_def good_poll_def)
  have w: "controllers warm 1 \<noteq> None" using warm_facts(2) by simp
  have hw: "controllers half_warm 1 \<noteq> None" using half_warm_facts(2) by simp
  from monitor_stops_on_creation_only [of init "[good_poll]" 2 good_poll] h
  have A: "\<exists>rest. sent (monitor_motors init [good_poll, good_poll]) = SetStop 1 # SetStop 2 # rest"
    and B: "controllers (state_of (monitor_motors init [good_poll, good_poll])) 1 \<noteq> None"
    and C: "controllers (state_of (monitor_motors init [good_poll, good_poll])) 2 \<noteq> None"
    by blast+
  note T = monitor_stops_on_creation_only [of init "[good_poll, good_poll]" 2 good_poll]
  from T have D: "stops_before_queries (sent (monitor_motors init [good_poll, good_poll]))"
    by (rule conjunct1)
  from T have "length (filter (\<lambda>ev. ev = SetStop 2) (sent (monitor_motors init [good_poll, good_poll])))
      \<le> (if controllers init 2 = None then 1 else 0)"
    by blast
  then have E: "length (filter (\<lambda>ev. ev = SetStop 2) (sent (monitor_motors init [good_poll, good_poll]))) \<le> 1"
    by (simp only: h(3) simp_thms if_True)
  from monitor_stops_on_creation_only [of warm "[good_poll, good_poll]" 1 good_poll]
  have "length (filter (\<lambda>ev. ev = SetStop 1) (sent (monitor_motors warm [good_poll, good_poll])))
      \<le> (if controllers warm 1 = None then 1 else 0)"
    by blast
  then have F: "length (filter (\<lambda>ev. ev = SetStop 1) (sent (monitor_motors warm [good_poll, good_poll]))) \<le> 0"
    by (simp only: warm_facts(2) option.distinct simp_thms if_False)
  from monitor_stops_on_creation_only [of half_warm "[]" 2 good_poll] half_warm_facts(1,3) hw
  have G: "\<exists>rest. sent (monitor_motors half_warm [good_poll]) = SetStop 2 # rest"
    and H: "controllers (state_of (monitor_motors half_warm [good_poll])) 2 \<noteq> None"
    by blast+
  have sf: "mo_stop1 stop_fails_poll = Raises TransportError"
    by (simp add: stop_fails_poll_def)
  from monitor_stops_on_creation_only [where s = init and e = stop_fails_poll
      and x = TransportError] h(1,2) sf
  have I: "controllers (state_of (monitor_motors init [stop_fails_poll])) 1 \<noteq> None"
    and "controllers (state_of (monitor_motors init [stop_fails_poll])) 2 = controllers init 2"
    and K: "filter is_stop (sent (monitor_motors init [stop_fails_poll])) = [SetStop 1]"
    by blast+
  then have J: "controllers (state_of (monitor_motors init [stop_fails_poll])) 2 = None"
    by (simp only: h(3))
  from h w hw half_warm_facts(1,3) warm_facts(1) A B C D E F G H sf I J K
  show ?thesis by blast
qed

subsection \<open>The mirror loop\<close>

lemma apply_ui_frame:
  "prevfiltpos (apply_ui a s) = prevfiltpos s"
  "controllers (apply_ui a s) = controllers s"
  by (cases a; simp add: update_alpha_def stop_control_def quit_app_def
        split: entry_text.splits pyfloat.splits)+

lemma apply_uis_frame:
  "prevfiltpos (apply_uis as s) = prevfiltpos s \<and> controllers (apply_uis as s) = controllers s"
  unfolding apply_uis_def
  by (induction as arbitrary: s) (simp_all add: apply_ui_frame)

lemma mirror_body_events:
  "list_all (mirror_event (cid c1) (cid c2)) (sent (mirror_body c1 c2 s e))"
  unfolding mirror_body_def sent_def
  by (simp add: Let_def split: outcome.splits option.splits)

lemma mirror_body_prevfiltpos:
  "prevfiltpos s \<noteq> None \<Longrightarrow> prevfiltpos (state_of (mirror_body c1 c2 s e)) \<noteq> None"
  unfolding mirror_body_def state_of_def
  by (auto simp: Let_def split: outcome.splits option.splits)

lemma mirror_body_stores_raw:
  "fst (mirror_body c1 c2 s e) = None \<Longrightarrow>
   \<exists>st. mi_leader e = Returns (Some st) \<and>
        prevfiltpos (state_of (mirror_body c1 c2 s e)) = Some (position st)"
  unfolding mirror_body_def state_of_def
  by (auto simp: Let_def split: outcome.splits option.splits)

lemma mirror_loop_Cons:
  "mirror_loop c1 c2 s (e # es) =
     (if \<not> running (apply_uis (mi_ui e) s) then (Returned, apply_uis (mi_ui e) s, [])
      else if fst (mirror_body c1 c2 (apply_uis (mi_ui e) s) e) \<noteq> None
      then (Raised (the (fst (mirror_body c1 c2 (apply_uis (mi_ui e) s) e))),
            state_of (mirror_body c1 c2 (apply_uis (mi_ui e) s) e),
            sent (mirror_body c1 c2 (apply_uis (mi_ui e) s) e))
      else (status_of (mirror_loop c1 c2 (state_of (mirror_body c1 c2 (apply_uis (mi_ui e) s) e)) es),
            state_of (mirror_loop c1 c2 (state_of (mirror_body c1 c2 (apply_uis (mi_ui e) s) e)) es),
            sent (mirror_body c1 c2 (apply_uis (mi_ui e) s) e) @
            sent (mirror_loop c1 c2 (state_of (mirror_body c1 c2 (apply_uis (mi_ui e) s) e)) es)))"
  by (cases "mirror_body c1 c2 (apply_uis (mi_ui e) s) e";
      cases "mirror_loop c1 c2 (state_of (mirror_body c1 c2 (apply_uis (mi_ui e) s) e)) es")
     (auto simp: proj_defs Let_def)

lemma mirror_loop_events:
  "list_all (mirror_event (cid c1) (cid c2)) (sent (mirror_loop c1 c2 s es))"
proof (induction es arbitrary: s)
  case Nil
  show ?case by (simp add: proj_defs)
next
  case (Cons e es)
  show ?case
    unfolding mirror_loop_Cons [of c1 c2 s e es]
    using mirror_body_events [of c1 c2 "apply_uis (mi_ui e) s" e]
      Cons.IH [of "state_of (mirror_body c1 c2 (apply_uis (mi_ui e) s) e)"]
    by (simp add: proj_defs)
qed

lemma mirror_loop_prevfiltpos:
  "prevfiltpos s \<noteq> None \<Longrightarrow> prevfiltpos (state_of (mirror_loop c1 c2 s es)) \<noteq> None"
proof (induction es arbitrary: s)
  case Nil
  then show ?case by (simp add: proj_defs)
next
  case (Cons e es)
  let ?s0 = "apply_uis (mi_ui e) s"
  from Cons.prems have s0: "prevfiltpos ?s0 \<noteq> None" by (simp add: apply_uis_frame)
  then have b: "prevfiltpos (state_of (mirror_body c1 c2 ?s0 e)) \<noteq> None"
    by (rule mirror_body_prevfiltpos)
  from Cons.IH [OF b] s0 b show ?case
    unfolding mirror_loop_Cons [of c1 c2 s e es] by (simp add: proj_defs)
qed

lemma initialize_controllers_no_set_position:
  "filter is_set_position (sent (initialize_controllers s a b)) = []"
  by (simp add: initialize_controllers_sent)

lemma motor_control_sent:
  assumes "initialize_controllers s (me_stop1 env) (me_stop2 env) = (Inr (c1, c2), s1, t1)"
    and "me_seed env = Returns (Some st)"
  shows "\<exists>tail. sent (motor_control s env) =
           t1 @ [Query (cid c1)] @
           sent (mirror_loop c1 c2 (s1\<lparr>prevfiltpos := Some (position st)\<rparr>) (me_iters env)) @ tail
         \<and> filter is_set_position tail = []"
  using assms unfolding motor_control_def
  by (cases "mirror_loop c1 c2 (s1\<lparr>prevfiltpos := Some (position st)\<rparr>) (me_iters env)")
     (auto simp: proj_defs Let_def split: status.splits outcome.splits)

lemma motor_control_set_positions:
  assumes "cache_ok s"
  shows "list_all (mirror_event 1 2) (filter is_set_position (sent (motor_control s env)))"
proof -
  obtain r s1 t1 where i: "initialize_controllers s (me_stop1 env) (me_stop2 env) = (r, s1, t1)"
    by (cases "initialize_controllers s (me_stop1 env) (me_stop2 env)")
  have t1: "filter is_set_position t1 = []"
    using initialize_controllers_no_set_position [of s "me_stop1 env" "me_stop2 env"] i
    by (simp add: sent_def)
  show ?thesis
  proof (cases r)
    case (Inl x)
    with i t1 show ?thesis by (simp add: motor_control_def sent_def)
  next
    case (Inr cs)
    obtain c1 c2 where cs: "cs = (c1, c2)" by (cases cs)
    with i Inr have i': "initialize_controllers s (me_stop1 env) (me_stop2 env) = (Inr (c1, c2), s1, t1)"
      by simp
    from initialize_controllers_cids [OF assms i'] have ids: "cid c1 = 1" "cid c2 = 2" by simp_all
    show ?thesis
    proof (cases "\<exists>st. me_seed env = Returns (Some st)")
      case False
      with i' t1 show ?thesis
        by (cases "me_seed env") (auto simp: motor_control_def sent_def Let_def split: option.splits)
    next
      case True
      then obtain st where "me_seed env = Returns (Some st)" by blast
      from motor_control_sent [OF i' this] obtain tail where
        s: "sent (motor_control s env) = t1 @ [Query (cid c1)] @
           sent (mirror_loop c1 c2 (s1\<lparr>prevfiltpos := Some (position st)\<rparr>) (me_iters env)) @ tail"
        and tail: "filter is_set_position tail = []"
        by blast
      have "list_all (mirror_event 1 2)
          (sent (mirror_loop c1 c2 (s1\<lparr>prevfiltpos := Some (position st)\<rparr>) (me_iters env)))"
        using mirror_loop_events [of c1 c2] ids by simp
      then have "list_all (mirror_event 1 2) (filter is_set_position
          (sent (mirror_loop c1 c2 (s1\<lparr>prevfiltpos := Some (position st)\<rparr>) (me_iters env))))"
        by (simp add: list_all_iff)
      with s t1 tail show ?thesis by simp
    qed
  qed
qed

lemma apply_ui_running:
  "a \<noteq> PressStop \<Longrightarrow> a \<noteq> PressQuit \<Longrightarrow> running (apply_ui a s) = running s"
  by (cases a) (simp_all add: update_alpha_def split: entry_text.splits pyfloat.splits)

lemma fold_apply_ui_running:
  "PressStop \<notin> set as \<Longrightarrow> PressQuit \<notin> set as \<Longrightarrow> running (fold apply_ui as s) = running s"
proof (induction as arbitrary: s)
  case Nil
  show ?case by simp
next
  case (Cons a as)
  from Cons.prems have a: "a \<noteq> PressStop" "a \<noteq> PressQuit"
    and as: "PressStop \<notin> set as" "PressQuit \<notin> set as"
    by auto
  have "running (fold apply_ui as (apply_ui a s)) = running (apply_ui a s)"
    using as by (rule Cons.IH)
  also have "\<dots> = running s" using a by (rule apply_ui_running)
  finally show ?case by simp
qed

lemma apply_uis_running:
  "keeps_running e \<Longrightarrow> running (apply_uis (mi_ui e) s) = running s"
  unfolding keeps_running_def apply_uis_def using fold_apply_ui_running by blast

lemma mirror_body_completes:
  assumes "completes e" and "prevfiltpos s \<noteq> None"
  shows "fst (mirror_body c1 c2 s e) = None \<and>
         running (state_of (mirror_body c1 c2 s e)) = running s"
  using assms unfolding completes_def mirror_body_def state_of_def
  by (auto simp: Let_def split: outcome.splits option.splits)

lemma mirror_loop_completes:
  "running s \<Longrightarrow> prevfiltpos s \<noteq> None \<Longrightarrow> list_all completes es \<Longrightarrow>
   status_of (mirror_loop c1 c2 s es) = Pending \<and>
   running (state_of (mirror_loop c1 c2 s es)) \<and>
   prevfiltpos (state_of (mirror_loop c1 c2 s es)) \<noteq> None"
proof (induction es arbitrary: s)
  case Nil
  then show ?case by (simp add: proj_defs)
next
  case (Cons e es)
  let ?s0 = "apply_uis (mi_ui e) s"
  let ?s1 = "state_of (mirror_body c1 c2 ?s0 e)"
  from Cons.prems have c: "completes e" and cs: "list_all completes es" by simp_all
  from c have k: "keeps_running e" by (simp add: completes_def)
  have r0: "running ?s0" using apply_uis_running [OF k] Cons.prems(1) by simp
  have p0: "prevfiltpos ?s0 \<noteq> None" using Cons.prems(2) by (simp add: apply_uis_frame)
  from mirror_body_completes [OF c p0, of c1 c2] r0
  have b: "fst (mirror_body c1 c2 ?s0 e) = None" and r1: "running ?s1" by simp_all
  have p1: "prevfiltpos ?s1 \<noteq> None" using p0 by (rule mirror_body_prevfiltpos)
  from Cons.IH [OF r1 p1 cs] r0 b show ?case
    unfolding mirror_loop_Cons [of c1 c2 s e es] by (simp add: proj_defs)
qed

lemma mirror_loop_append:
  "mirror_loop c1 c2 s (es @ es') =
     (if status_of (mirror_loop c1 c2 s es) = Pending
      then (status_of (mirror_loop c1 c2 (state_of (mirror_loop c1 c2 s es)) es'),
            state_of (mirror_loop c1 c2 (state_of (mirror_loop c1 c2 s es)) es'),
            sent (mirror_loop c1 c2 s es) @
            sent (mirror_loop c1 c2 (state_of (mirror_loop c1 c2 s es)) es'))
      else mirror_loop c1 c2 s es)"
proof (induction es arbitrary: s)
  case Nil
  show ?case by (simp add: proj_defs)
next
  case (Cons e es)
  show ?case
    unfolding append_Cons mirror_loop_Cons [of c1 c2 s e]
    by (simp add: Cons.IH proj_defs)
qed

lemma initialize_controllers_returns:
  "\<exists>c1 c2 s1 t1. initialize_controllers s (Returns ()) (Returns ()) = (Inr (c1, c2), s1, t1)"
  unfolding initialize_controllers_def new_controller_def
  by (cases "controllers s 1"; cases "controllers s 2") (simp_all add: Let_def)

lemma initialize_controllers_running:
  "running (state_of (initialize_controllers s a b)) = running s"
proof -
  obtain n m where "state_of (initialize_controllers s a b) = s\<lparr>next_addr := n, controllers := m\<rparr>"
    using initialize_controllers_frame by blast
  then show ?thesis by simp
qed

lemma motor_control_pending:
  assumes i: "initialize_controllers s (me_stop1 env) (me_stop2 env) = (Inr (c1, c2), s1, t1)"
    and sd: "me_seed env = Returns (Some seed)"
    and l: "mirror_loop c1 c2 (s1\<lparr>prevfiltpos := Some (position seed)\<rparr>) (me_iters env) =
              (Pending, s3, t3)"
  shows "motor_control s env = (Pending, s3, t1 @ [Query (cid c1)] @ t3)"
  by (simp add: motor_control_def i sd l)

lemma mirror_body_leader_replies:
  assumes "mi_leader e = Returns (Some st)" and "prevfiltpos s = Some p"
  shows "\<exists>rest. sent (mirror_body c1 c2 s e) =
           SetPosition (cid c1) (Some NaN) (Some NaN) (15 / 1000) #
           SetPosition (cid c2) (Some (Fin (7 - (alpha s * p + (1 - alpha s) * position st))))
             None (1 / 10) # rest"
  using assms unfolding mirror_body_def sent_def
  by (simp add: Let_def split: outcome.splits)

lemma mirror_body_leader_silent:
  assumes "\<forall>st. mi_leader e \<noteq> Returns (Some st)"
  shows "fst (mirror_body c1 c2 s e) \<noteq> None \<and>
         sent (mirror_body c1 c2 s e) = [SetPosition (cid c1) (Some NaN) (Some NaN) (15 / 1000)]"
  using assms unfolding mirror_body_def sent_def
  by (cases "mi_leader e") (auto simp: Let_def split: option.splits)

lemma mirror_loop_first_pass:
  assumes "running (apply_uis (mi_ui e) s)"
  shows "\<exists>r. sent (mirror_loop c1 c2 s (e # es)) =
               sent (mirror_body c1 c2 (apply_uis (mi_ui e) s) e) @ r \<and>
             (fst (mirror_body c1 c2 (apply_uis (mi_ui e) s) e) \<noteq> None \<longrightarrow> r = [])"
  using assms unfolding mirror_loop_Cons [of c1 c2 s e es] by (simp add: proj_defs)

text \<open>
  Claim C3 is false as stated. A pass of the loop that finds the flag set but whose
  leader command raises sends the leader's position hold and nothing to the follower:
  the loop is left and \<^verbatim>\<open>finally\<close> stops both. The last two equations recall the
  other way in which it fails (claim C2): with the coefficient one half, a seed of 0
  and the leader read at 1 twice, the second pass sends the follower to 6, where the
  filter of the specification gives \<open>7 - 3/4\<close>.
\<close>

theorem follower_needs_leader_reply:
  "running (fst (start_control init))
   \<and> status_of (motor_control (fst (start_control init))
        (run_env 0 [leader_fails_pass] (Returns ()))) = Raised TransportError
   \<and> sent (motor_control (fst (start_control init))
        (run_env 0 [leader_fails_pass] (Returns ()))) =
       [SetStop 1, SetStop 2, Query 1,
        SetPosition 1 (Some NaN) (Some NaN) (15 / 1000),
        SetStop 1, SetStop 2]
   \<and> targets 2 (sent (motor_control (fst (start_control init))
        (run_env 0 [leader_fails_pass] (Returns ())))) = []
   \<and> targets 2 (sent (motor_control (fst (start_control alpha_half))
        (run_env 0 [pass 1, pass 1, stop_pass] (Returns ())))) = [13 / 2, 6]
   \<and> map (\<lambda>f. 7 - f) (tl (spec_filter_run (1 / 2) None [0, 1, 1])) = [13 / 2, 25 / 4]"
  by (simp add: run_defs proj_defs leader_fails_pass_def spec_filter_update_def Let_def)

text \<open>
  Claim C3, amended. Take a run of \<^verbatim>\<open>motor_control\<close>, started with the flag set in a
  session whose dictionary is in order, whose seeding query is answered; let the
  passes \<open>es\<close> go round and let the next pass \<open>e\<close> find the flag still set. When
  pass \<open>e\<close> begins the loop is still running and \<^verbatim>\<open>prevfiltpos\<close> holds a number (the
  seed, if \<open>e\<close> is the first pass). Pass \<open>e\<close> first sends actuator 1 the position
  hold with no position, no velocity and maximum torque 0.015. When the leader replies
  \<open>st\<close>, the very next command sends actuator 2 to
  \<open>7 - (alpha * prevfiltpos + (1 - alpha) * position st)\<close> with maximum torque 0.1,
  \<open>alpha\<close> and \<^verbatim>\<open>prevfiltpos\<close> being what the session holds when the pass begins.
  When the leader does not reply, no position command follows the hold. Over the whole
  run every position command is one of these two kinds.
\<close>

theorem motor_control_pass_commands:
  assumes ok: "cache_ok s" and run: "running s"
    and stop1: "me_stop1 env = Returns ()" and stop2: "me_stop2 env = Returns ()"
    and seed: "me_seed env = Returns (Some seed)"
    and iters: "me_iters env = es @ e # es'"
    and earlier: "list_all completes es"
    and flag: "keeps_running e"
  shows "status_of (motor_control s (env\<lparr>me_iters := es\<rparr>)) = Pending
   \<and> (\<exists>p. prevfiltpos (state_of (motor_control s (env\<lparr>me_iters := es\<rparr>))) = Some p)
   \<and> (es = [] \<longrightarrow>
        prevfiltpos (state_of (motor_control s (env\<lparr>me_iters := es\<rparr>))) = Some (position seed))
   \<and> (\<forall>st. mi_leader e = Returns (Some st) \<longrightarrow>
        (\<exists>rest. sent (motor_control s env) =
           sent (motor_control s (env\<lparr>me_iters := es\<rparr>)) @
           SetPosition 1 (Some NaN) (Some NaN) (15 / 1000) #
           SetPosition 2
             (Some (Fin (7 -
                (alpha (apply_uis (mi_ui e) (state_of (motor_control s (env\<lparr>me_iters := es\<rparr>)))) *
                   the (prevfiltpos (state_of (motor_control s (env\<lparr>me_iters := es\<rparr>)))) +
                 (1 - alpha (apply_uis (mi_ui e) (state_of (motor_control s (env\<lparr>me_iters := es\<rparr>))))) *
                   position st))))
             None (1 / 10) # rest))
   \<and> ((\<forall>st. mi_leader e \<noteq> Returns (Some st)) \<longrightarrow>
        (\<exists>rest. sent (motor_control s env) =
           sent (motor_control s (env\<lparr>me_iters := es\<rparr>)) @
           SetPosition 1 (Some NaN) (Some NaN) (15 / 1000) # rest \<and>
           filter is_set_position rest = []))
   \<and> list_all (mirror_event 1 2) (filter is_set_position (sent (motor_control s env)))"
proof -
  obtain c1 c2 s1 t1 where
    i0: "initialize_controllers s (Returns ()) (Returns ()) = (Inr (c1, c2), s1, t1)"
    using initialize_controllers_returns by blast
  let ?envk = "env\<lparr>me_iters := es\<rparr>"
  have i: "initialize_controllers s (me_stop1 env) (me_stop2 env) = (Inr (c1, c2), s1, t1)"
    using i0 stop1 stop2 by simp
  have ik: "initialize_controllers s (me_stop1 ?envk) (me_stop2 ?envk) = (Inr (c1, c2), s1, t1)"
    using i0 stop1 stop2 by simp
  have seedk: "me_seed ?envk = Returns (Some seed)" using seed by simp
  from initialize_controllers_cids [OF ok i] have ids: "cid c1 = 1" "cid c2 = 2" by simp_all
  have r1: "running s1"
    using initialize_controllers_running [of s "me_stop1 env" "me_stop2 env"] i run
    by (simp add: state_of_def)
  let ?s2 = "s1\<lparr>prevfiltpos := Some (position seed)\<rparr>"
  have r2: "running ?s2" and p2: "prevfiltpos ?s2 \<noteq> None" using r1 by simp_all
  obtain stk sk tk where lk: "mirror_loop c1 c2 ?s2 es = (stk, sk, tk)"
    by (cases "mirror_loop c1 c2 ?s2 es")
  from mirror_loop_completes [OF r2 p2 earlier, of c1 c2] lk
  have stk: "stk = Pending" and rk: "running sk" and pk: "prevfiltpos sk \<noteq> None"
    by (simp_all add: proj_defs)
  have lk': "mirror_loop c1 c2 ?s2 (me_iters ?envk) = (Pending, sk, tk)"
    using lk stk by simp
  have runk: "motor_control s ?envk = (Pending, sk, t1 @ [Query (cid c1)] @ tk)"
    by (rule motor_control_pending [OF ik seedk lk'])
  have A: "status_of (motor_control s ?envk) = Pending" by (simp add: runk status_of_def)
  have sk: "state_of (motor_control s ?envk) = sk" by (simp add: runk state_of_def)
  have sentk: "sent (motor_control s ?envk) = t1 @ [Query (cid c1)] @ tk"
    by (simp add: runk sent_def)
  from pk obtain p where p: "prevfiltpos sk = Some p" by auto
  have B: "\<exists>p. prevfiltpos (state_of (motor_control s ?envk)) = Some p"
    using p sk by simp
  have C: "es = [] \<longrightarrow> prevfiltpos (state_of (motor_control s ?envk)) = Some (position seed)"
  proof
    assume "es = []"
    with lk have "sk = ?s2" by simp
    then show "prevfiltpos (state_of (motor_control s ?envk)) = Some (position seed)"
      using sk by simp
  qed
  let ?s0 = "apply_uis (mi_ui e) sk"
  have r0: "running ?s0" using apply_uis_running [OF flag, of sk] rk by simp
  have p0: "prevfiltpos ?s0 = Some p" using p by (simp add: apply_uis_frame)
  obtain r where r: "sent (mirror_loop c1 c2 sk (e # es')) = sent (mirror_body c1 c2 ?s0 e) @ r"
    and r_nil: "fst (mirror_body c1 c2 ?s0 e) \<noteq> None \<longrightarrow> r = []"
    using mirror_loop_first_pass [OF r0, of c1 c2 es'] by blast
  have full: "sent (mirror_loop c1 c2 ?s2 (me_iters env)) =
      tk @ sent (mirror_body c1 c2 ?s0 e) @ r"
    unfolding iters mirror_loop_append [of c1 c2 ?s2 es "e # es'"]
    using lk stk r by (simp add: proj_defs)
  obtain tail where
    whole: "sent (motor_control s env) =
      t1 @ [Query (cid c1)] @ sent (mirror_loop c1 c2 ?s2 (me_iters env)) @ tail"
    and tail: "filter is_set_position tail = []"
    using motor_control_sent [OF i seed] by blast
  have split: "sent (motor_control s env) =
      sent (motor_control s ?envk) @ sent (mirror_body c1 c2 ?s0 e) @ r @ tail"
    by (simp add: whole full sentk)
  have D: "\<forall>st. mi_leader e = Returns (Some st) \<longrightarrow>
        (\<exists>rest. sent (motor_control s env) =
           sent (motor_control s ?envk) @
           SetPosition 1 (Some NaN) (Some NaN) (15 / 1000) #
           SetPosition 2
             (Some (Fin (7 -
                (alpha (apply_uis (mi_ui e) (state_of (motor_control s ?envk))) *
                   the (prevfiltpos (state_of (motor_control s ?envk))) +
                 (1 - alpha (apply_uis (mi_ui e) (state_of (motor_control s ?envk)))) *
                   position st))))
             None (1 / 10) # rest)"
  proof (intro allI impI)
    fix st
    assume "mi_leader e = Returns (Some st)"
    from mirror_body_leader_replies [OF this p0, of c1 c2] obtain rb where
      "sent (mirror_body c1 c2 ?s0 e) =
         SetPosition 1 (Some NaN) (Some NaN) (15 / 1000) #
         SetPosition 2 (Some (Fin (7 - (alpha ?s0 * p + (1 - alpha ?s0) * position st))))
           None (1 / 10) # rb"
      unfolding ids by blast
    then have "sent (motor_control s env) =
         sent (motor_control s ?envk) @
         SetPosition 1 (Some NaN) (Some NaN) (15 / 1000) #
         SetPosition 2 (Some (Fin (7 - (alpha ?s0 * p + (1 - alpha ?s0) * position st))))
           None (1 / 10) # (rb @ r @ tail)"
      using split by simp
    then show "\<exists>rest. sent (motor_control s env) =
           sent (motor_control s ?envk) @
           SetPosition 1 (Some NaN) (Some NaN) (15 / 1000) #
           SetPosition 2
             (Some (Fin (7 -
                (alpha (apply_uis (mi_ui e) (state_of (motor_control s ?envk))) *
                   the (prevfiltpos (state_of (motor_control s ?envk))) +
                 (1 - alpha (apply_uis (mi_ui e) (state_of (motor_control s ?envk)))) *
                   position st))))
             None (1 / 10) # rest"
      unfolding sk p by (simp only: option.sel) blast
  qed
  have E: "(\<forall>st. mi_leader e \<noteq> Returns (Some st)) \<longrightarrow>
        (\<exists>rest. sent (motor_control s env) =
           sent (motor_control s ?envk) @
           SetPosition 1 (Some NaN) (Some NaN) (15 / 1000) # rest \<and>
           filter is_set_position rest = [])"
  proof
    assume "\<forall>st. mi_leader e \<noteq> Returns (Some st)"
    from mirror_body_leader_silent [OF this, of c1 c2 ?s0]
    have raised: "fst (mirror_body c1 c2 ?s0 e) \<noteq> None"
      and body: "sent (mirror_body c1 c2 ?s0 e) = [SetPosition 1 (Some NaN) (Some NaN) (15 / 1000)]"
      unfolding ids by simp_all
    from raised r_nil have "r = []" by simp
    with split body have "sent (motor_control s env) =
        sent (motor_control s ?envk) @ SetPosition 1 (Some NaN) (Some NaN) (15 / 1000) # tail"
      by simp
    with tail show "\<exists>rest. sent (motor_control s env) =
           sent (motor_control s ?envk) @
           SetPosition 1 (Some NaN) (Some NaN) (15 / 1000) # rest \<and>
           filter is_set_position rest = []"
      by blast
  qed
  have F: "list_all (mirror_event 1 2) (filter is_set_position (sent (motor_control s env)))"
    using ok by (rule motor_control_set_positions)
  from A B C D E F show ?thesis by (intro conjI)
qed

theorem motor_control_pass_commands_witness:
  "cache_ok (fst (start_control alpha_half)) \<and> running (fst (start_control alpha_half))
   \<and> me_stop1 (run_env 0 [pass 1, stop_pass] (Returns ())) = Returns ()
   \<and> me_stop2 (run_env 0 [pass 1, stop_pass] (Returns ())) = Returns ()
   \<and> me_seed (run_env 0 [pass 1, stop_pass] (Returns ())) = Returns (Some (tel 0 0))
   \<and> me_iters (run_env 0 [pass 1, stop_pass] (Returns ())) = [] @ pass 1 # [stop_pass]
   \<and> keeps_running (pass 1) \<and> mi_leader (pass 1) = Returns (Some (tel 1 0))
   \<and> status_of (motor_control (fst (start_control alpha_half))
         ((run_env 0 [pass 1, stop_pass] (Returns ()))\<lparr>me_iters := []\<rparr>)) = Pending
   \<and> prevfiltpos (state_of (motor_control (fst (start_control alpha_half))
         ((run_env 0 [pass 1, stop_pass] (Returns ()))\<lparr>me_iters := []\<rparr>))) = Some 0
   \<and> (\<exists>rest. sent (motor_control (fst (start_control alpha_half))
           (run_env 0 [pass 1, stop_pass] (Returns ()))) =
         [SetStop 1, SetStop 2, Query 1] @
         SetPosition 1 (Some NaN) (Some NaN) (15 / 1000) #
         SetPosition 2 (Some (Fin (13 / 2))) None (1 / 10) # rest)
   \<and> me_iters (run_env 0 [pass 1, leader_fails_pass] (Returns ())) = [pass 1] @ leader_fails_pass # []
   \<and> list_all completes [pass 1] \<and> keeps_running leader_fails_pass
   \<and> (\<forall>st. mi_leader leader_fails_pass \<noteq> Returns (Some st))
   \<and> (\<exists>rest. sent (motor_control (fst (start_control alpha_half))
           (run_env 0 [pass 1, leader_fails_pass] (Returns ()))) =
         sent (motor_control (fst (start_control alpha_half))
           ((run_env 0 [pass 1, leader_fails_pass] (Returns ()))\<lparr>me_iters := [pass 1]\<rparr>)) @
         SetPosition 1 (Some NaN) (Some NaN) (15 / 1000) # rest \<and>
         filter is_set_position rest = [])"
proof -
  let ?s = "fst (start_control alpha_half)"
  let ?E = "run_env 0 [pass 1, stop_pass] (Returns ())"
  let ?F = "run_env 0 [pass 1, leader_fails_pass] (Returns ())"
  have s: "cache_ok ?s" "running ?s"
    by (simp_all add: cache_ok_def start_control_def alpha_half_def update_alpha_def init_def)
  have E: "me_stop1 ?E = Returns ()" "me_stop2 ?E = Returns ()"
    "me_seed ?E = Returns (Some (tel 0 0))" "me_iters ?E = [] @ pass 1 # [stop_pass]"
    by (simp_all add: run_env_def)
  have F: "me_stop1 ?F = Returns ()" "me_stop2 ?F = Returns ()"
    "me_seed ?F = Returns (Some (tel 0 0))" "me_iters ?F = [pass 1] @ leader_fails_pass # []"
    by (simp_all add: run_env_def)
  have k: "keeps_running (pass 1)" "keeps_running leader_fails_pass"
    by (simp_all add: keeps_running_def pass_def leader_fails_pass_def)
  have c: "list_all completes []" "list_all completes [pass 1]"
    by (simp_all add: completes_def keeps_running_def pass_def)
  have l: "mi_leader (pass 1) = Returns (Some (tel 1 0))"
    "\<forall>st. mi_leader leader_fails_pass \<noteq> Returns (Some st)"
    by (simp_all add: pass_def leader_fails_pass_def)
  note T = motor_control_pass_commands [OF s E c(1) k(1)]
  have v: "sent (motor_control ?s (?E\<lparr>me_iters := []\<rparr>)) = [SetStop 1, SetStop 2, Query 1]"
    "alpha (apply_uis (mi_ui (pass 1)) (state_of (motor_control ?s (?E\<lparr>me_iters := []\<rparr>)))) = 1 / 2"
    "position (tel 0 0) = 0" "position (tel 1 0) = 1"
    by (simp_all add: run_defs proj_defs)
  from T have A: "status_of (motor_control ?s (?E\<lparr>me_iters := []\<rparr>)) = Pending" by blast
  from T have "prevfiltpos (state_of (motor_control ?s (?E\<lparr>me_iters := []\<rparr>))) = Some (position (tel 0 0))"
    by blast
  then have B: "prevfiltpos (state_of (motor_control ?s (?E\<lparr>me_iters := []\<rparr>))) = Some 0"
    by (simp only: v(3))
  from T l(1) have "\<exists>rest. sent (motor_control ?s ?E) =
           sent (motor_control ?s (?E\<lparr>me_iters := []\<rparr>)) @
           SetPosition 1 (Some NaN) (Some NaN) (15 / 1000) #
           SetPosition 2
             (Some (Fin (7 -
                (alpha (apply_uis (mi_ui (pass 1)) (state_of (motor_control ?s (?E\<lparr>me_iters := []\<rparr>)))) *
                   the (prevfiltpos (state_of (motor_control ?s (?E\<lparr>me_iters := []\<rparr>)))) +
                 (1 - alpha (apply_uis (mi_ui (pass 1)) (state_of (motor_control ?s (?E\<lparr>me_iters := []\<rparr>))))) *
                   position (tel 1 0)))))
             None (1 / 10) # rest"
    by blast
  then have C: "\<exists>rest. sent (motor_control ?s ?E) =
         [SetStop 1, SetStop 2, Query 1] @
         SetPosition 1 (Some NaN) (Some NaN) (15 / 1000) #
         SetPosition 2 (Some (Fin (13 / 2))) None (1 / 10) # rest"
    unfolding v B option.sel by simp
  from motor_control_pass_commands [OF s F c(2) k(2)] l(2)
  have D: "\<exists>rest. sent (motor_control ?s ?F) =
         sent (motor_control ?s (?F\<lparr>me_iters := [pass 1]\<rparr>)) @
         SetPosition 1 (Some NaN) (Some NaN) (15 / 1000) # rest \<and>
         filter is_set_position rest = []"
    by blast
  from s E k c(2) l F(4) A B C D show ?thesis by blast
qed

subsection \<open>What touches the filter state\<close>

lemma initialize_controllers_prevfiltpos:
  "prevfiltpos (state_of (initialize_controllers s a b)) = prevfiltpos s"
proof -
  obtain n m where "state_of (initialize_controllers s a b) = s\<lparr>next_addr := n, controllers := m\<rparr>"
    using initialize_controllers_frame by blast
  then show ?thesis by simp
qed

lemma monitor_prevfiltpos:
  "prevfiltpos (state_of (monitor_motors s es)) = prevfiltpos s"
proof (induction es arbitrary: s)
  case Nil
  show ?case by (simp add: proj_defs)
next
  case (Cons e es)
  have "prevfiltpos (state_of (monitor_body s e)) = prevfiltpos s"
    by (simp add: monitor_body_state initialize_controllers_prevfiltpos)
  with Cons.IH [of "state_of (monitor_body s e)"] show ?case
    unfolding monitor_motors_Cons [of s e es] by (simp add: proj_defs)
qed

lemma trigger_loop_prevfiltpos:
  "prevfiltpos (fst (snd (snd (trigger_loop c s es)))) = prevfiltpos s"
proof (induction es arbitrary: s)
  case Nil
  show ?case by simp
next
  case (Cons e es)
  let ?s0 = "if hi_cancel e then s\<lparr>homing_trigger := False\<rparr> else s"
  obtain st ok s1 t where l: "trigger_loop c ?s0 es = (st, ok, s1, t)"
    by (cases "trigger_loop c ?s0 es")
  from Cons.IH [of ?s0] l have "prevfiltpos s1 = prevfiltpos s"
    by (simp split: if_splits)
  with l show ?case
    by (cases "hi_cancel e")
       (auto simp: Let_def split: outcome.splits option.splits)
qed

lemma gripper_loop_prevfiltpos:
  "prevfiltpos (fst (snd (snd (gripper_loop c s es)))) = prevfiltpos s"
proof (induction es arbitrary: s)
  case Nil
  show ?case by simp
next
  case (Cons e es)
  let ?s0 = "if hi_cancel e then s\<lparr>homing_gripper := False\<rparr> else s"
  obtain st ok s1 t where l: "gripper_loop c ?s0 es = (st, ok, s1, t)"
    by (cases "gripper_loop c ?s0 es")
  from Cons.IH [of ?s0] l have "prevfiltpos s1 = prevfiltpos s"
    by (simp split: if_splits)
  with l show ?case
    by (cases "hi_cancel e")
       (auto simp: Let_def split: outcome.splits option.splits)
qed

lemma home_trigger_try_prevfiltpos:
  "prevfiltpos (fst (snd (snd (home_trigger_try s env)))) = prevfiltpos s"
proof (cases "homing_trigger s")
  case True
  then show ?thesis by (simp add: home_trigger_try_def)
next
  case False
  let ?s1 = "s\<lparr>homing_trigger := True, hometrig_btn := False\<rparr>"
  obtain r s2 t1 where i: "initialize_controllers ?s1 (he_stop1 env) (he_stop2 env) = (r, s2, t1)"
    by (cases "initialize_controllers ?s1 (he_stop1 env) (he_stop2 env)")
  have s2: "prevfiltpos s2 = prevfiltpos s"
    using initialize_controllers_prevfiltpos [of ?s1 "he_stop1 env" "he_stop2 env"] i
    by (simp add: state_of_def)
  show ?thesis
  proof (cases r)
    case (Inl x)
    with False i s2 show ?thesis by (simp add: home_trigger_try_def)
  next
    case (Inr cs)
    obtain c1 c2 where "cs = (c1, c2)" by (cases cs)
    with False i s2 Inr trigger_loop_prevfiltpos [of c1 s2 "he_iters env"] show ?thesis
      by (cases "trigger_loop c1 s2 (he_iters env)")
         (auto simp: home_trigger_try_def Let_def split: outcome.splits status.splits)
  qed
qed

lemma home_trigger_prevfiltpos:
  "prevfiltpos (state_of (home_trigger s env)) = prevfiltpos s"
  using home_trigger_try_prevfiltpos [of s env]
  by (cases "home_trigger_try s env")
     (auto simp: home_trigger_def state_of_def Let_def split: status.splits option.splits outcome.splits)

lemma home_gripper_try_prevfiltpos:
  "prevfiltpos (fst (snd (snd (home_gripper_try s env)))) = prevfiltpos s"
proof (cases "homing_gripper s")
  case True
  then show ?thesis by (simp add: home_gripper_try_def)
next
  case False
  let ?s1 = "s\<lparr>homing_gripper := True, homegrip_btn := False\<rparr>"
  obtain r s2 t1 where i: "initialize_controllers ?s1 (he_stop1 env) (he_stop2 env) = (r, s2, t1)"
    by (cases "initialize_controllers ?s1 (he_stop1 env) (he_stop2 env)")
  have s2: "prevfiltpos s2 = prevfiltpos s"
    using initialize_controllers_prevfiltpos [of ?s1 "he_stop1 env" "he_stop2 env"] i
    by (simp add: state_of_def)
  show ?thesis
  proof (cases r)
    case (Inl x)
    with False i s2 show ?thesis by (simp add: home_gripper_try_def)
  next
    case (Inr cs)
    obtain c1 c2 where "cs = (c1, c2)" by (cases cs)
    with False i s2 Inr gripper_loop_prevfiltpos [of c2 s2 "he_iters env"] show ?thesis
      by (cases "gripper_loop c2 s2 (he_iters env)")
         (auto simp: home_gripper_try_def Let_def split: outcome.splits status.splits)
  qed
qed

lemma home_gripper_prevfiltpos:
  "prevfiltpos (state_of (home_gripper s env)) = prevfiltpos s"
  using home_gripper_try_prevfiltpos [of s env]
  by (cases "home_gripper_try s env")
     (auto simp: home_gripper_def state_of_def Let_def split: status.splits option.splits outcome.splits)

lemma motor_control_seeds:
  assumes "me_stop1 env = Returns ()" and "me_stop2 env = Returns ()"
    and "me_seed env = Returns (Some st)" and "me_iters env = []"
  shows "status_of (motor_control s env) = Pending \<and>
         prevfiltpos (state_of (motor_control s env)) = Some (position st)"
  using assms unfolding motor_control_def initialize_controllers_def new_controller_def proj_defs
  by (cases "controllers s 1"; cases "controllers s 2") (simp_all add: Let_def)

lemma motor_control_keeps_seeded:
  assumes "prevfiltpos s \<noteq> None"
  shows "prevfiltpos (state_of (motor_control s env)) \<noteq> None"
proof -
  obtain r s1 t1 where i: "initialize_controllers s (me_stop1 env) (me_stop2 env) = (r, s1, t1)"
    by (cases "initialize_controllers s (me_stop1 env) (me_stop2 env)")
  have s1: "prevfiltpos s1 \<noteq> None"
    using initialize_controllers_prevfiltpos [of s "me_stop1 env" "me_stop2 env"] i assms
    by (simp add: state_of_def)
  show ?thesis
  proof (cases r)
    case (Inl x)
    with i s1 show ?thesis by (simp add: motor_control_def state_of_def)
  next
    case (Inr cs)
    obtain c1 c2 where cs: "cs = (c1, c2)" by (cases cs)
    show ?thesis
    proof (cases "\<exists>st. me_seed env = Returns (Some st)")
      case False
      with i s1 Inr cs show ?thesis
        by (cases "me_seed env")
           (auto simp: motor_control_def state_of_def Let_def split: option.splits)
    next
      case True
      then obtain st where st: "me_seed env = Returns (Some st)" by blast
      let ?s2 = "s1\<lparr>prevfiltpos := Some (position st)\<rparr>"
      have "prevfiltpos (state_of (mirror_loop c1 c2 ?s2 (me_iters env))) \<noteq> None"
        by (rule mirror_loop_prevfiltpos) simp
      with i Inr cs st show ?thesis
        by (cases "mirror_loop c1 c2 ?s2 (me_iters env)")
           (auto simp: motor_control_def state_of_def Let_def split: status.splits outcome.splits)
    qed
  qed
qed

text \<open>
  Claim C6 is false as stated: in one session, a first run of \<^verbatim>\<open>motor_control\<close>
  leaves \<^verbatim>\<open>prevfiltpos\<close> at 1 when it is stopped; after GO is pressed again the second
  run, which makes no pass of the loop at all, leaves it at 2, the reading of its own
  seeding query.
\<close>

theorem restart_reseeds_filter:
  "status_of first_run = Returned
   \<and> prevfiltpos (state_of first_run) = Some 1
   \<and> status_of second_run = Returned
   \<and> targets 2 (sent second_run) = []
   \<and> prevfiltpos (state_of second_run) = Some 2
   \<and> prevfiltpos (state_of second_run) \<noteq> prevfiltpos (state_of first_run)"
  by (simp add: first_run_def second_run_def run_defs proj_defs)

text \<open>
  Claim C6, amended. Every start of \<^verbatim>\<open>motor_control\<close> whose seeding query is answered
  sets \<^verbatim>\<open>prevfiltpos\<close> to the position just read, whatever it held before; a run of
  \<^verbatim>\<open>motor_control\<close> never takes a seeded \<^verbatim>\<open>prevfiltpos\<close> back to \<^verbatim>\<open>None\<close>; and
  nothing else changes it: not the callbacks of the buttons and of the entry, not
  \<^verbatim>\<open>initialize_controllers\<close>, not the monitor loop, not the two homing procedures.
\<close>

theorem prevfiltpos_changes_only_in_motor_control:
  "(me_stop1 env = Returns () \<and> me_stop2 env = Returns () \<and>
    me_seed env = Returns (Some st) \<and> me_iters env = [] \<longrightarrow>
      status_of (motor_control s env) = Pending \<and>
      prevfiltpos (state_of (motor_control s env)) = Some (position st))
   \<and> (prevfiltpos s \<noteq> None \<longrightarrow> prevfiltpos (state_of (motor_control s env)) \<noteq> None)
   \<and> prevfiltpos (fst (start_control s)) = prevfiltpos s
   \<and> prevfiltpos (stop_control s) = prevfiltpos s
   \<and> prevfiltpos (quit_app s) = prevfiltpos s
   \<and> prevfiltpos (update_alpha s) = prevfiltpos s
   \<and> prevfiltpos (apply_uis as s) = prevfiltpos s
   \<and> prevfiltpos (state_of (initialize_controllers s a b)) = prevfiltpos s
   \<and> prevfiltpos (state_of (monitor_motors s es)) = prevfiltpos s
   \<and> prevfiltpos (state_of (home_trigger s henv)) = prevfiltpos s
   \<and> prevfiltpos (state_of (home_gripper s henv)) = prevfiltpos s"
proof -
  have "prevfiltpos (update_alpha s) = prevfiltpos s"
    using apply_ui_frame(1) [of PressUpdateAlpha s] by simp
  then show ?thesis
    using motor_control_seeds [of env st s] motor_control_keeps_seeded [of s env]
      apply_uis_frame [of as s] initialize_controllers_prevfiltpos [of s a b]
      monitor_prevfiltpos [of s es] home_trigger_prevfiltpos [of s henv]
      home_gripper_prevfiltpos [of s henv]
    by (simp add: start_control_def stop_control_def quit_app_def)
qed

theorem prevfiltpos_changes_only_in_motor_control_witness:
  "me_stop1 (run_env 2 [] (Returns ())) = Returns ()
   \<and> me_stop2 (run_env 2 [] (Returns ())) = Returns ()
   \<and> me_seed (run_env 2 [] (Returns ())) = Returns (Some (tel 2 0))
   \<and> me_iters (run_env 2 [] (Returns ())) = []
   \<and> prevfiltpos (state_of first_run) = Some 1
   \<and> status_of (motor_control (state_of first_run) (run_env 2 [] (Returns ()))) = Pending
   \<and> prevfiltpos (state_of (motor_control (state_of first_run) (run_env 2 [] (Returns ()))))
        = Some 2
   \<and> prevfiltpos (state_of (home_trigger (state_of first_run) (homing_run []))) = Some 1
   \<and> prevfiltpos (state_of (monitor_motors (state_of first_run) [good_poll])) = Some 1"
proof -
  have h: "me_stop1 (run_env 2 [] (Returns ())) = Returns ()"
    "me_stop2 (run_env 2 [] (Returns ())) = Returns ()"
    "me_seed (run_env 2 [] (Returns ())) = Returns (Some (tel 2 0))"
    "me_iters (run_env 2 [] (Returns ())) = []"
    by (simp_all add: run_env_def)
  have p: "prevfiltpos (state_of first_run) = Some 1"
    by (simp add: first_run_def run_defs proj_defs)
  have t: "position (tel 2 0) = 2" by (simp add: tel_def)
  note T = prevfiltpos_changes_only_in_motor_control [where env = "run_env 2 [] (Returns ())"
      and st = "tel 2 0" and s = "state_of first_run" and es = "[good_poll]"
      and henv = "homing_run []"]
  from T h have A: "status_of (motor_control (state_of first_run) (run_env 2 [] (Returns ()))) = Pending"
    and B: "prevfiltpos (state_of (motor_control (state_of first_run) (run_env 2 [] (Returns ()))))
        = Some (position (tel 2 0))"
    by blast+
  from T have C: "prevfiltpos (state_of (home_trigger (state_of first_run) (homing_run [])))
      = prevfiltpos (state_of first_run)"
    and D: "prevfiltpos (state_of (monitor_motors (state_of first_run) [good_poll]))
      = prevfiltpos (state_of first_run)"
    by blast+
  from h p A B C D show ?thesis by (simp only: t)
qed

subsection \<open>Controller objects\<close>

text \<open>
  Claim C7 is false as stated: once \<^verbatim>\<open>initialize_controllers\<close> has run in a fresh
  session there are two controller objects for actuator 2, the one \<^verbatim>\<open>__init__\<close> made
  for the stream and the one in the dictionary.
\<close>

theorem two_objects_for_actuator_2:
  "controller warm = \<lparr>addr = 0, cid = 2\<rparr>
   \<and> stream warm = \<lparr>addr = 0, cid = 2\<rparr>
   \<and> controllers warm 2 = Some \<lparr>addr = 2, cid = 2\<rparr>
   \<and> cid (controller warm) = cid (the (controllers warm 2))
   \<and> addr (controller warm) \<noteq> addr (the (controllers warm 2))"
  by (simp add: warm_def state_of_def initialize_controllers_def new_controller_def init_def)

text \<open>
  Claim C7, amended. The dictionary \<^verbatim>\<open>self.controllers\<close> holds at most one controller
  object per actuator id, made on first use and returned on every later use:
  \<^verbatim>\<open>initialize_controllers\<close> keeps every object that is in the dictionary, makes no
  object and sends nothing when both are there, returns the objects of the dictionary,
  makes at most one new object for each missing id, each at a fresh address and filed
  under the id it talks to, and so keeps the dictionary in order. Beside the
  dictionary, \<^verbatim>\<open>__init__\<close> has made one more object for actuator 2, the stream's.
\<close>

theorem controllers_created_once_in_dictionary:
  "(controllers s i = Some c \<longrightarrow>
      controllers (state_of (initialize_controllers s a b)) i = Some c)
   \<and> (controllers s 1 = Some c1 \<and> controllers s 2 = Some c2 \<longrightarrow>
      initialize_controllers s a b = (Inr (c1, c2), s, []))
   \<and> (fst (initialize_controllers s a b) = Inr (d1, d2) \<longrightarrow>
      controllers (state_of (initialize_controllers s a b)) 1 = Some d1 \<and>
      controllers (state_of (initialize_controllers s a b)) 2 = Some d2)
   \<and> (controllers s i = None \<and>
      controllers (state_of (initialize_controllers s a b)) i = Some c \<longrightarrow>
      cid c = i \<and> next_addr s \<le> addr c \<and>
      addr c < next_addr (state_of (initialize_controllers s a b)))
   \<and> next_addr (state_of (initialize_controllers s a b)) \<le>
       next_addr s + (if controllers s 1 = None then 1 else 0)
                   + (if controllers s 2 = None then 1 else 0)
   \<and> (cache_ok s \<longrightarrow> cache_ok (state_of (initialize_controllers s a b)))
   \<and> controller (state_of (initialize_controllers s a b)) = controller s
   \<and> stream (state_of (initialize_controllers s a b)) = stream s"
proof -
  let ?s' = "state_of (initialize_controllers s a b)"
  have A: "controllers s i = Some c \<longrightarrow> controllers ?s' i = Some c"
    using initialize_controllers_keeps by blast
  have B: "controllers s 1 = Some c1 \<and> controllers s 2 = Some c2 \<longrightarrow>
      initialize_controllers s a b = (Inr (c1, c2), s, [])"
    using initialize_controllers_cached by blast
  have C: "fst (initialize_controllers s a b) = Inr (d1, d2) \<longrightarrow>
      controllers ?s' 1 = Some d1 \<and> controllers ?s' 2 = Some d2"
    using initialize_controllers_result [of s a b d1 d2]
    by (cases "initialize_controllers s a b") (auto simp: state_of_def)
  have D: "controllers s i = None \<and> controllers ?s' i = Some c \<longrightarrow>
      cid c = i \<and> next_addr s \<le> addr c \<and> addr c < next_addr ?s'"
    unfolding initialize_controllers_def new_controller_def state_of_def
    by (cases a; cases b; cases "controllers s 1"; cases "controllers s 2")
       (auto simp: Let_def split: if_splits)
  have E: "next_addr ?s' \<le> next_addr s + (if controllers s 1 = None then 1 else 0)
                   + (if controllers s 2 = None then 1 else 0)"
    unfolding initialize_controllers_def new_controller_def state_of_def
    by (cases a; cases b; cases "controllers s 1"; cases "controllers s 2")
       (auto simp: Let_def)
  have F: "cache_ok s \<longrightarrow> cache_ok ?s'"
    using initialize_controllers_cache_ok by blast
  obtain n m where "?s' = s\<lparr>next_addr := n, controllers := m\<rparr>"
    using initialize_controllers_frame by blast
  then have G: "controller ?s' = controller s \<and> stream ?s' = stream s" by simp
  from A B C D E F G show ?thesis by blast
qed

theorem controllers_created_once_in_dictionary_witness:
  "controllers init 1 = None \<and> controllers init 2 = None \<and> cache_ok init
   \<and> fst (initialize_controllers init (Returns ()) (Returns ())) =
       Inr (\<lparr>addr = 1, cid = 1\<rparr>, \<lparr>addr = 2, cid = 2\<rparr>)
   \<and> controllers warm 1 = Some \<lparr>addr = 1, cid = 1\<rparr>
   \<and> controllers warm 2 = Some \<lparr>addr = 2, cid = 2\<rparr>
   \<and> cid \<lparr>addr = 1, cid = 1\<rparr> = 1 \<and> next_addr init \<le> addr \<lparr>addr = 1, cid = 1\<rparr>
   \<and> addr \<lparr>addr = 1, cid = 1\<rparr> < next_addr warm
   \<and> next_addr warm \<le> next_addr init + 2
   \<and> initialize_controllers warm (Returns ()) (Returns ()) =
       (Inr (\<lparr>addr = 1, cid = 1\<rparr>, \<lparr>addr = 2, cid = 2\<rparr>), warm, [])
   \<and> controllers (state_of (initialize_controllers warm (Returns ()) (Returns ()))) 2 =
       Some \<lparr>addr = 2, cid = 2\<rparr>
   \<and> cache_ok warm"
proof -
  let ?c1 = "\<lparr>addr = 1, cid = 1\<rparr>" and ?c2 = "\<lparr>addr = 2, cid = 2\<rparr>"
  have h: "controllers init 1 = None" "controllers init 2 = None" "cache_ok init"
    by (simp_all add: init_def cache_ok_def)
  have r: "fst (initialize_controllers init (Returns ()) (Returns ())) = Inr (?c1, ?c2)"
    by (simp add: initialize_controllers_def new_controller_def init_def)
  note W = controllers_created_once_in_dictionary [where s = warm and i = 2
      and c = ?c2 and ?c1.0 = ?c1 and ?c2.0 = ?c2 and a = "Returns ()" and b = "Returns ()"]
  from W warm_facts(2,3) have A: "initialize_controllers warm (Returns ()) (Returns ()) =
       (Inr (?c1, ?c2), warm, [])"
    and B: "controllers (state_of (initialize_controllers warm (Returns ()) (Returns ()))) 2 =
       Some ?c2"
    by blast+
  note I = controllers_created_once_in_dictionary [where s = init and i = 1
      and c = ?c1 and ?d1.0 = ?c1 and ?d2.0 = ?c2 and a = "Returns ()" and b = "Returns ()",
      folded warm_def]
  from I h(3) have C: "cache_ok warm" by blast
  from I r have D: "controllers warm 1 = Some ?c1" and E: "controllers warm 2 = Some ?c2"
    by blast+
  from I h(1) D have F: "cid ?c1 = 1 \<and> next_addr init \<le> addr ?c1 \<and> addr ?c1 < next_addr warm"
    by blast
  from I have "next_addr warm \<le> next_addr init + (if controllers init 1 = None then 1 else 0)
        + (if controllers init 2 = None then 1 else 0)"
    by blast
  then have G: "next_addr warm \<le> next_addr init + 2"
    by (simp only: h(1,2) simp_thms if_True)
  from h r A B C D E F G show ?thesis by blast
qed

subsection \<open>The two stops of \<^verbatim>\<open>finally\<close> in general\<close>

text \<open>
  Once the loop of \<^verbatim>\<open>motor_control\<close> has been entered and left, in whatever way, the
  leader's stop is sent. The follower's stop follows exactly when the leader's returns.
\<close>

lemma motor_control_stops_both:
  assumes "initialize_controllers s (me_stop1 env) (me_stop2 env) = (Inr (c1, c2), s1, t1)"
    and "me_seed env = Returns (Some st)"
    and "status_of (mirror_loop c1 c2 (s1\<lparr>prevfiltpos := Some (position st)\<rparr>) (me_iters env)) \<noteq> Pending"
    and "me_final1 env = Returns ()"
  shows "\<exists>t. sent (motor_control s env) = t @ [SetStop (cid c1), SetStop (cid c2)]"
  using assms unfolding motor_control_def
  by (cases "mirror_loop c1 c2 (s1\<lparr>prevfiltpos := Some (position st)\<rparr>) (me_iters env)")
     (auto simp: proj_defs Let_def split: status.splits outcome.splits)

lemma motor_control_leader_stop_fails:
  assumes "initialize_controllers s (me_stop1 env) (me_stop2 env) = (Inr (c1, c2), s1, t1)"
    and "me_seed env = Returns (Some st)"
    and "status_of (mirror_loop c1 c2 (s1\<lparr>prevfiltpos := Some (position st)\<rparr>) (me_iters env)) \<noteq> Pending"
    and "me_final1 env = Raises y"
  shows "status_of (motor_control s env) = Raised y \<and>
         sent (motor_control s env) =
           t1 @ [Query (cid c1)] @
           sent (mirror_loop c1 c2 (s1\<lparr>prevfiltpos := Some (position st)\<rparr>) (me_iters env)) @
           [SetStop (cid c1)]"
  using assms unfolding motor_control_def
  by (cases "mirror_loop c1 c2 (s1\<lparr>prevfiltpos := Some (position st)\<rparr>) (me_iters env)")
     (auto simp: proj_defs Let_def split: status.splits outcome.splits)

text \<open>The loop is left as soon as a pass finds the flag cleared or raises.\<close>

lemma mirror_loop_leaves:
  "\<not> running (apply_uis (mi_ui e) s) \<or> fst (mirror_body c1 c2 (apply_uis (mi_ui e) s) e) \<noteq> None
   \<Longrightarrow> status_of (mirror_loop c1 c2 s (e # es)) \<noteq> Pending"
  unfolding mirror_loop_Cons [of c1 c2 s e es] by (auto simp: proj_defs)

subsection \<open>A homing run whose probe crosses the threshold\<close>

lemma trigger_loop_crossing:
  assumes "homing_trigger s"
    and "list_all (goes_round (\<lambda>tq. tq < - (2 / 100))) es"
    and "crossing (\<lambda>tq. tq < - (2 / 100)) e"
  shows "trigger_loop c s (es @ e # es') =
     (Returned, True, s,
      concat (map (\<lambda>_. [SetPosition (cid c) (Some NaN) (Some (Fin (- (1 / 2)))) (3 / 100),
                        Sleep (1 / 100)]) es) @
      [SetPosition (cid c) (Some NaN) (Some (Fin (- (1 / 2)))) (3 / 100),
       StreamCommand (cid (stream s)) ''d exact 0'', Sleep (1 / 10)])"
  using assms(2)
proof (induction es)
  case Nil
  from assms(1,3) show ?case
    by (auto simp: crossing_def Let_def split: outcome.splits option.splits)
next
  case (Cons p ps)
  then have p: "goes_round (\<lambda>tq. tq < - (2 / 100)) p" and ps: "list_all (goes_round (\<lambda>tq. tq < - (2 / 100))) ps"
    by simp_all
  note ih = Cons.IH [OF ps]
  from p assms(1) show ?case
    by (auto simp: ih goes_round_def Let_def split: outcome.splits option.splits)
qed

lemma gripper_loop_crossing:
  assumes "homing_gripper s"
    and "list_all (goes_round (\<lambda>tq. tq > 3 / 100)) es"
    and "crossing (\<lambda>tq. tq > 3 / 100) e"
  shows "gripper_loop c s (es @ e # es') =
     (Returned, True, s,
      concat (map (\<lambda>_. [SetPosition (cid c) (Some NaN) (Some (Fin (1 / 2))) (5 / 100),
                        Sleep (1 / 100)]) es) @
      [SetPosition (cid c) (Some NaN) (Some (Fin (1 / 2))) (5 / 100),
       StreamCommand (cid (stream s)) ''d exact 7'', Sleep (1 / 10)])"
  using assms(2)
proof (induction es)
  case Nil
  from assms(1,3) show ?case
    by (auto simp: crossing_def Let_def split: outcome.splits option.splits)
next
  case (Cons p ps)
  then have p: "goes_round (\<lambda>tq. tq > 3 / 100) p" and ps: "list_all (goes_round (\<lambda>tq. tq > 3 / 100)) ps"
    by simp_all
  note ih = Cons.IH [OF ps]
  from p assms(1) show ?case
    by (auto simp: ih goes_round_def Let_def split: outcome.splits option.splits)
qed

text \<open>
  The whole of \<^verbatim>\<open>home_trigger\<close> in a session whose controller objects exist: one
  stream command on the pass that finds the threshold crossed, success, no probe after
  it, the leader stopped last. The stream command goes to the actuator of
  \<^verbatim>\<open>self.stream\<close>, whichever actuator is being homed.
\<close>

lemma home_trigger_crossing:
  assumes "\<not> homing_trigger s"
    and "controllers s 1 = Some c1" and "controllers s 2 = Some c2"
    and "he_first_stop env = Returns ()" and "he_pause env = Returns ()"
    and "he_final_stop env = Returns ()"
    and "he_iters env = es @ e # es'"
    and "list_all (goes_round (\<lambda>tq. tq < - (2 / 100))) es"
    and "crossing (\<lambda>tq. tq < - (2 / 100)) e"
  shows "home_trigger s env =
     (Returned, s\<lparr>homing_trigger := False, hometrig_btn := True\<rparr>,
      [SetStop (cid c1), Sleep (1 / 10)] @
      concat (map (\<lambda>_. [SetPosition (cid c1) (Some NaN) (Some (Fin (- (1 / 2)))) (3 / 100),
                        Sleep (1 / 100)]) es) @
      [SetPosition (cid c1) (Some NaN) (Some (Fin (- (1 / 2)))) (3 / 100),
       StreamCommand (cid (stream s)) ''d exact 0'', Sleep (1 / 10),
       ShowInfo ''Success'' ''Trigger homing completed'', SetStop (cid c1)])"
proof -
  let ?s1 = "s\<lparr>homing_trigger := True, hometrig_btn := False\<rparr>"
  have i: "initialize_controllers ?s1 (he_stop1 env) (he_stop2 env) = (Inr (c1, c2), ?s1, [])"
    using assms(2,3) by (simp add: initialize_controllers_cached)
  have l: "trigger_loop c1 ?s1 (he_iters env) =
     (Returned, True, ?s1,
      concat (map (\<lambda>_. [SetPosition (cid c1) (Some NaN) (Some (Fin (- (1 / 2)))) (3 / 100),
                        Sleep (1 / 100)]) es) @
      [SetPosition (cid c1) (Some NaN) (Some (Fin (- (1 / 2)))) (3 / 100),
       StreamCommand (cid (stream ?s1)) ''d exact 0'', Sleep (1 / 10)])"
    unfolding assms(7) by (rule trigger_loop_crossing [OF _ assms(8,9)]) simp
  show ?thesis
    using assms(1,4,5,6)
    by (simp add: home_trigger_def home_trigger_try_def i l del: trigger_loop.simps)
qed

lemma home_gripper_crossing:
  assumes "\<not> homing_gripper s"
    and "controllers s 1 = Some c1" and "controllers s 2 = Some c2"
    and "he_first_stop env = Returns ()" and "he_pause env = Returns ()"
    and "he_final_stop env = Returns ()"
    and "he_iters env = es @ e # es'"
    and "list_all (goes_round (\<lambda>tq. tq > 3 / 100)) es"
    and "crossing (\<lambda>tq. tq > 3 / 100) e"
  shows "home_gripper s env =
     (Returned, s\<lparr>homing_gripper := False, homegrip_btn := True\<rparr>,
      [SetStop (cid c2), Sleep (1 / 10)] @
      concat (map (\<lambda>_. [SetPosition (cid c2) (Some NaN) (Some (Fin (1 / 2))) (5 / 100),
                        Sleep (1 / 100)]) es) @
      [SetPosition (cid c2) (Some NaN) (Some (Fin (1 / 2))) (5 / 100),
       StreamCommand (cid (stream s)) ''d exact 7'', Sleep (1 / 10),
       ShowInfo ''Success'' ''Gripper homing completed'', SetStop (cid c2)])"
proof -
  let ?s1 = "s\<lparr>homing_gripper := True, homegrip_btn := False\<rparr>"
  have i: "initialize_controllers ?s1 (he_stop1 env) (he_stop2 env) = (Inr (c1, c2), ?s1, [])"
    using assms(2,3) by (simp add: initialize_controllers_cached)
  have l: "gripper_loop c2 ?s1 (he_iters env) =
     (Returned, True, ?s1,
      concat (map (\<lambda>_. [SetPosition (cid c2) (Some NaN) (Some (Fin (1 / 2))) (5 / 100),
                        Sleep (1 / 100)]) es) @
      [SetPosition (cid c2) (Some NaN) (Some (Fin (1 / 2))) (5 / 100),
       StreamCommand (cid (stream ?s1)) ''d exact 7'', Sleep (1 / 10)])"
    unfolding assms(7) by (rule gripper_loop_crossing [OF _ assms(8,9)]) simp
  show ?thesis
    using assms(1,4,5,6)
    by (simp add: home_gripper_def home_gripper_try_def i l del: gripper_loop.simps)
qed

text \<open>
  The procedure in flight after another call has cleared its flag: the next pass of
  its loop finds the flag cleared and the loop returns without success.
\<close>

lemma trigger_loop_cancelled:
  "hi_cancel e \<Longrightarrow> trigger_loop c s (e # es) = (Returned, False, s\<lparr>homing_trigger := False\<rparr>, [])"
  by simp

lemma gripper_loop_cancelled:
  "hi_cancel e \<Longrightarrow> gripper_loop c s (e # es) = (Returned, False, s\<lparr>homing_gripper := False\<rparr>, [])"
  by simp

end
